theory Spec2Isabelle
  imports Main "HOL-Library.Sublist"
begin

section \<open>Data handed to the installer library\<close>

text \<open>
  The script \<^verbatim>\<open>installer.py\<close> owns no data structure of its own: it reads the
  configuration bag \<^verbatim>\<open>archinstall.arguments\<close> and hands values of the library's
  classes to the library's methods. Only the attributes the script reads are fields here.
\<close>

type_synonym path = string

datatype DiskLayoutType = Default | Manual | Pre_mount

record DiskLayoutConfiguration =
  config_type :: DiskLayoutType

datatype EncryptionType = NoEncryption | Luks | LvmOnLuks | LuksOnLvm

record DiskEncryption =
  encryption_type :: EncryptionType

record LocaleConfiguration =
  kb_layout :: string
  sys_lang :: string
  sys_enc :: string

datatype SignCheck = Never | Optional | Required

datatype SignOption = TrustedOnly | TrustAll

record CustomMirror =
  name :: string
  url :: string
  sign_check :: SignCheck
  sign_option :: SignOption

record MirrorConfiguration =
  mirror_regions :: "(string \<times> string list) list"
  custom_mirrors :: "CustomMirror list"

datatype Bootloader = Systemd | Grub | Efistub | Limine

record User =
  username :: string
  password :: string
  sudo :: bool

text \<open>
  \<^verbatim>\<open>archinstall.arguments\<close> is a dictionary. A Python value that may be
  \<^verbatim>\<open>None\<close> is an \<open>option\<close>, and so is a key that may be absent: a field is
  \<open>None\<close> when the key is absent, \<open>Some None\<close> when the key is there and holds
  \<^verbatim>\<open>None\<close>, and \<open>Some (Some v)\<close> when it holds the value \<open>v\<close>. The field names are
  the keys, with \<^verbatim>\<open>!users\<close>, \<^verbatim>\<open>!root-password\<close>, \<^verbatim>\<open>additional-repositories\<close>
  and \<^verbatim>\<open>custom-commands\<close> spelt as identifiers.
\<close>

record config_bag =
  disk_config :: "DiskLayoutConfiguration option option"
  additional_repositories :: "string list option option"
  locale_config :: "LocaleConfiguration option option"
  disk_encryption :: "DiskEncryption option option"
  kernels :: "string list option option"
  mirror_config :: "MirrorConfiguration option option"
  hostname :: "string option option"
  swap :: "bool option option"
  bootloader :: "Bootloader option option"
  users :: "User list option option"
  packages :: "string list option option"
  timezone :: "string option option"
  ntp :: "bool option option"
  root_password :: "string option option"
  services :: "string list option option"
  custom_commands :: "string list option option"
  silent :: "bool option option"

section \<open>Library calls, exceptions and the script's state\<close>

text \<open>
  \<^verbatim>\<open>add_additional_packages\<close> receives the string \<^verbatim>\<open>"grub"\<close> at one place and
  elsewhere a list of strings or what \<^verbatim>\<open>archinstall.arguments.get('packages', [])\<close>
  gives, which may be \<^verbatim>\<open>None\<close>.
\<close>

datatype pkg_arg = PkgStr string | PkgList "string list" | PkgNone

datatype exn =
    KeyError string | IndexError | TypeError | AttributeError string | Exception string
  | KeyboardInterrupt | SystemExit

text \<open>\<^verbatim>\<open>except Exception\<close> catches the instances of \<^verbatim>\<open>Exception\<close> only.\<close>

fun is_Exception :: "exn \<Rightarrow> bool" where
  "is_Exception (KeyError k) = True"
| "is_Exception IndexError = True"
| "is_Exception TypeError = True"
| "is_Exception (AttributeError n) = True"
| "is_Exception (Exception m) = True"
| "is_Exception KeyboardInterrupt = False"
| "is_Exception SystemExit = False"

text \<open>
  Every call the script makes into the library, with the arguments it passes. An argument
  that the script reads from the configuration and hands over as it is may be \<^verbatim>\<open>None\<close>.
\<close>

datatype call =
    GlobalMenu_init
  | GlobalMenu_enable string bool
  | GlobalMenu_run
  | FilesystemHandler_init "DiskLayoutConfiguration option" "DiskEncryption option"
  | Perform_filesystem_operations
  | Info string
  | Debug string
  | Disk_layouts
  | Installer_init path "DiskLayoutConfiguration option" "DiskEncryption option"
      "string list option"
  | Installer_enter
  | Installer_exit "exn option"
  | Mount_ordered_layout
  | Sanity_check
  | Generate_key_files
  | Use_mirrors "(string \<times> string list) list"
  | Add_custom_mirrors "CustomMirror list"
  | Minimal_installation bool bool "string option" "LocaleConfiguration option"
  | Set_mirrors MirrorConfiguration
  | Setup_swap string
  | Has_uefi
  | Add_additional_packages pkg_arg
  | Enable_service "string list option"
  | Add_bootloader "Bootloader option"
  | Copy_iso_network_config
  | Create_users "User list"
  | Set_timezone string
  | Activate_time_synchronization
  | Accessibility_tools_in_use
  | Enable_espeakup
  | User_set_pw string string
  | Set_keyboard_language string
  | Run_custom_user_commands "string list option"
  | Genfstab
  | Translate string
  | Menu_yes_no
  | Menu_yes
  | Menu_init string "string list" string
  | Menu_run
  | Drop_to_shell

text \<open>An event is a call together with the exception it raised, if any.\<close>

type_synonym event = "call \<times> exn option"

record script_state =
  arguments :: config_bag
  trace :: "event list"

text \<open>
  The library is not part of the repository. It is a parameter: which calls raise (given
  the calls made so far), what the queries return, what the menu writes into its data
  store, and whether \<^verbatim>\<open>Installer.__exit__\<close> returns a true value for an exception.
\<close>

record library =
  raises :: "event list \<Rightarrow> call \<Rightarrow> exn option"
  exit_suppresses :: "exn \<Rightarrow> bool"
  has_uefi :: bool
  accessibility_tools_in_use :: bool
  translation :: "string \<Rightarrow> string"
  menu_yes_no :: "string list"
  menu_yes :: string
  menu_choice :: string
  storage_mount_point :: "path option"
  disk_layouts :: string
  menu_input :: "config_bag \<Rightarrow> config_bag"

type_synonym 'a script = "script_state \<Rightarrow> (exn + 'a) \<times> script_state"

definition ret :: "'a \<Rightarrow> 'a script" where
  "ret x = (\<lambda>s. (Inr x, s))"

definition raise :: "exn \<Rightarrow> 'a script" where
  "raise e = (\<lambda>s. (Inl e, s))"

definition bind_script :: "'a script \<Rightarrow> ('a \<Rightarrow> 'b script) \<Rightarrow> 'b script" where
  "bind_script m k = (\<lambda>s. case m s of (Inl e, s') \<Rightarrow> (Inl e, s') | (Inr x, s') \<Rightarrow> k x s')"

text \<open>A run of statements, one after the other; the first exception ends it.\<close>

fun seq :: "unit script list \<Rightarrow> unit script" where
  "seq [] = ret ()"
| "seq (p # ps) = bind_script p (\<lambda>_. seq ps)"

definition when_s :: "bool \<Rightarrow> unit script \<Rightarrow> unit script" where
  "when_s b p = (if b then p else ret ())"

text \<open>\<^verbatim>\<open>for x in xs: body\<close> for a list \<^verbatim>\<open>xs\<close>\<close>

fun for_each :: "'a list \<Rightarrow> ('a \<Rightarrow> unit script) \<Rightarrow> unit script" where
  "for_each [] body = ret ()"
| "for_each (x # xs) body = bind_script (body x) (\<lambda>_. for_each xs body)"

text \<open>
  A library call: it is recorded with its outcome, and its exception is raised. The call
  acts on the machine, not on the configuration: the script hands the configuration bag
  itself to \<^verbatim>\<open>GlobalMenu\<close> only, as its data store.
\<close>

definition lib :: "library \<Rightarrow> call \<Rightarrow> unit script" where
  "lib env c = (\<lambda>s.
     (case raises env (trace s) c of
        None \<Rightarrow> (Inr (), s\<lparr>trace := trace s @ [(c, None)]\<rparr>)
      | Some e \<Rightarrow> (Inl e, s\<lparr>trace := trace s @ [(c, Some e)]\<rparr>)))"

text \<open>\<^verbatim>\<open>try: p  except Exception: pass\<close>\<close>

definition try_except_Exception :: "unit script \<Rightarrow> unit script" where
  "try_except_Exception p = (\<lambda>s.
     (case p s of
        (Inl e, s') \<Rightarrow> if is_Exception e then (Inr (), s') else (Inl e, s')
      | (Inr x, s') \<Rightarrow> (Inr x, s')))"

text \<open>
  \<^verbatim>\<open>archinstall.arguments[key]\<close> raises \<^verbatim>\<open>KeyError\<close> for an absent key and gives
  what the key holds otherwise, \<^verbatim>\<open>None\<close> included.
\<close>

definition arguments_item :: "(config_bag \<Rightarrow> 'a option option) \<Rightarrow> string \<Rightarrow> 'a option script" where
  "arguments_item field key = (\<lambda>s.
     (case field (arguments s) of None \<Rightarrow> (Inl (KeyError key), s) | Some v \<Rightarrow> (Inr v, s)))"

text \<open>\<^verbatim>\<open>archinstall.arguments.get(key, None)\<close> and \<^verbatim>\<open>archinstall.arguments.get(key)\<close>\<close>

definition arguments_get :: "(config_bag \<Rightarrow> 'a option option) \<Rightarrow> 'a option script" where
  "arguments_get field = (\<lambda>s.
     (Inr (case field (arguments s) of None \<Rightarrow> None | Some v \<Rightarrow> v), s))"

text \<open>
  \<^verbatim>\<open>archinstall.arguments.get(key, default)\<close>: the default stands for an absent key
  only, a key that holds \<^verbatim>\<open>None\<close> gives \<^verbatim>\<open>None\<close>.
\<close>

definition arguments_get_default :: "(config_bag \<Rightarrow> 'a option option) \<Rightarrow> 'a \<Rightarrow> 'a option script" where
  "arguments_get_default field d = (\<lambda>s.
     (Inr (case field (arguments s) of None \<Rightarrow> Some d | Some v \<Rightarrow> v), s))"

text \<open>\<^verbatim>\<open>obj.attr\<close>: \<^verbatim>\<open>None\<close> has none of the attributes the script reads.\<close>

definition getattr :: "'a option \<Rightarrow> ('a \<Rightarrow> 'b) \<Rightarrow> string \<Rightarrow> 'b script" where
  "getattr obj attr attr_name =
     (case obj of None \<Rightarrow> raise (AttributeError attr_name) | Some v \<Rightarrow> ret (attr v))"

text \<open>\<^verbatim>\<open>x in xs\<close>: \<^verbatim>\<open>None\<close> is not iterable.\<close>

definition is_in :: "'a \<Rightarrow> 'a list option \<Rightarrow> bool script" where
  "is_in x xs = (case xs of None \<Rightarrow> raise TypeError | Some ys \<Rightarrow> ret (x \<in> set ys))"

text \<open>\<^verbatim>\<open>for x in xs: body\<close> where \<^verbatim>\<open>xs\<close> may be \<^verbatim>\<open>None\<close>, which is not iterable.\<close>

definition for_in :: "'a list option \<Rightarrow> ('a \<Rightarrow> unit script) \<Rightarrow> unit script" where
  "for_in xs body = (case xs of None \<Rightarrow> raise TypeError | Some ys \<Rightarrow> for_each ys body)"

section \<open>The interactive phase\<close>

text \<open>
  \<^verbatim>\<open>global_menu.run()\<close> fills the menu's data store, which is
  \<^verbatim>\<open>archinstall.arguments\<close> itself.
\<close>

definition GlobalMenu_run_store :: "library \<Rightarrow> unit script" where
  "GlobalMenu_run_store env =
     bind_script (lib env GlobalMenu_run)
       (\<lambda>_ s. (Inr (), s\<lparr>arguments := menu_input env (arguments s)\<rparr>))"

definition ask_user_questions :: "library \<Rightarrow> unit script" where
  "ask_user_questions env = seq [
     lib env GlobalMenu_init,
     lib env (GlobalMenu_enable ''archinstall-language'' False),
     lib env (GlobalMenu_enable ''mirror_config'' False),
     lib env (GlobalMenu_enable ''locale_config'' False),
     lib env (GlobalMenu_enable ''disk_config'' True),
     lib env (GlobalMenu_enable ''disk_encryption'' False),
     lib env (GlobalMenu_enable ''bootloader'' False),
     lib env (GlobalMenu_enable ''hostname'' False),
     lib env (GlobalMenu_enable ''!root-password'' True),
     lib env (GlobalMenu_enable ''!users'' True),
     lib env (GlobalMenu_enable ''packages'' False),
     lib env (GlobalMenu_enable ''parallel downloads'' False),
     lib env (GlobalMenu_enable ''timezone'' False),
     lib env (GlobalMenu_enable ''ntp'' False),
     lib env (GlobalMenu_enable ''additional-repositories'' False),
     lib env (GlobalMenu_enable ''__separator__'' False),
     lib env (GlobalMenu_enable ''install'' False),
     lib env (GlobalMenu_enable ''save_config'' False),
     lib env (GlobalMenu_enable ''abort'' False),
     GlobalMenu_run_store env]"

text \<open>What a trace holds of one kind of call: \<open>f\<close> picks the calls and what to keep of them.\<close>

definition collect :: "(call \<Rightarrow> 'b list) \<Rightarrow> event list \<Rightarrow> 'b list" where
  "collect f evs = concat (map (\<lambda>ev. f (fst ev)) evs)"

text \<open>The menu entries a trace has enabled, in order.\<close>

definition menu_entry :: "call \<Rightarrow> string list" where
  "menu_entry c = (case c of GlobalMenu_enable k m \<Rightarrow> [k] | _ \<Rightarrow> [])"

definition enabled_entries :: "event list \<Rightarrow> string list" where
  "enabled_entries evs = collect menu_entry evs"

text \<open>
  The entries the specification lists: disk, mirrors, locale, encryption, bootloader,
  hostname, root password, users, packages, parallel downloads, timezone, NTP and
  additional repositories.
\<close>

definition spec_menu_entries :: "string list" where
  "spec_menu_entries = [''disk_config'', ''mirror_config'', ''locale_config'',
     ''disk_encryption'', ''bootloader'', ''hostname'', ''!root-password'', ''!users'',
     ''packages'', ''parallel downloads'', ''timezone'', ''ntp'',
     ''additional-repositories'']"

section \<open>The installation phase\<close>

definition install_paru :: "string list" where
  "install_paru = [
     ''git clone https://aur.archlinux.org/paru.git'',
     ''cd paru'',
     ''makepkg -si --noconfirm'']"

text \<open>Library calls whose result the script uses.\<close>

definition SysInfo_has_uefi :: "library \<Rightarrow> bool script" where
  "SysInfo_has_uefi env = bind_script (lib env Has_uefi) (\<lambda>_. ret (has_uefi env))"

definition archinstall_accessibility_tools_in_use :: "library \<Rightarrow> bool script" where
  "archinstall_accessibility_tools_in_use env =
     bind_script (lib env Accessibility_tools_in_use) (\<lambda>_. ret (accessibility_tools_in_use env))"

definition translate :: "library \<Rightarrow> string \<Rightarrow> string script" where
  "translate env msg = bind_script (lib env (Translate msg)) (\<lambda>_. ret (translation env msg))"

definition Menu_yes_no_options :: "library \<Rightarrow> string list script" where
  "Menu_yes_no_options env = bind_script (lib env Menu_yes_no) (\<lambda>_. ret (menu_yes_no env))"

definition Menu_yes_option :: "library \<Rightarrow> string script" where
  "Menu_yes_option env = bind_script (lib env Menu_yes) (\<lambda>_. ret (menu_yes env))"

definition Menu_run_value :: "library \<Rightarrow> string script" where
  "Menu_run_value env = bind_script (lib env Menu_run) (\<lambda>_. ret (menu_choice env))"

definition disk_disk_layouts :: "library \<Rightarrow> string script" where
  "disk_disk_layouts env = bind_script (lib env Disk_layouts) (\<lambda>_. ret (disk_layouts env))"

text \<open>
  \<^verbatim>\<open>if v := archinstall.arguments.get(key, None): body\<close> for an object, which is true
  when it is there, and for a list or a string, which is true when it is there and not
  empty.
\<close>

definition when_some :: "'a option \<Rightarrow> ('a \<Rightarrow> unit script) \<Rightarrow> unit script" where
  "when_some x body = (case x of None \<Rightarrow> ret () | Some v \<Rightarrow> body v)"

definition when_nonempty :: "'a list option \<Rightarrow> ('a list \<Rightarrow> unit script) \<Rightarrow> unit script" where
  "when_nonempty x body =
     (case x of None \<Rightarrow> ret () | Some [] \<Rightarrow> ret () | Some (v # vs) \<Rightarrow> body (v # vs))"

text \<open>\<^verbatim>\<open>xs[0]\<close>: \<^verbatim>\<open>None\<close> has no subscript, the empty list has no first element.\<close>

definition subscript0 :: "'a list option \<Rightarrow> 'a script" where
  "subscript0 xs =
     (case xs of None \<Rightarrow> raise TypeError | Some [] \<Rightarrow> raise IndexError | Some (x # _) \<Rightarrow> ret x)"

text \<open>
  The condition of line 183:
  \<^verbatim>\<open>archinstall.arguments.get('packages', None) and archinstall.arguments.get('packages', None)[0] != ''\<close>
\<close>

definition user_packages_given :: "bool script" where
  "user_packages_given =
     bind_script (arguments_get packages) (\<lambda>p.
       (case p of
          None \<Rightarrow> ret False
        | Some [] \<Rightarrow> ret False
        | Some (_ # _) \<Rightarrow>
            bind_script (arguments_get packages) (\<lambda>q.
            bind_script (subscript0 q) (\<lambda>first. ret (first \<noteq> '''')))))"

text \<open>
  \<^verbatim>\<open>with Installer(...) as installation: body\<close>. The constructor and
  \<^verbatim>\<open>__enter__\<close> run first. When the body raises, \<^verbatim>\<open>__exit__\<close> receives the
  exception; the exception goes on unless \<^verbatim>\<open>__exit__\<close> returns a true value, and an
  exception of \<^verbatim>\<open>__exit__\<close> itself replaces it.
\<close>

definition with_Installer :: "library \<Rightarrow> call \<Rightarrow> unit script \<Rightarrow> unit script" where
  "with_Installer env ctor body =
     bind_script (lib env ctor) (\<lambda>_.
     bind_script (lib env Installer_enter) (\<lambda>_ s.
       (case body s of
          (Inr _, s1) \<Rightarrow> lib env (Installer_exit None) s1
        | (Inl e, s1) \<Rightarrow>
            (case lib env (Installer_exit (Some e)) s1 of
               (Inl e', s2) \<Rightarrow> (Inl e', s2)
             | (Inr _, s2) \<Rightarrow> if exit_suppresses env e then (Inr (), s2) else (Inl e, s2)))))"

text \<open>The end of the \<^verbatim>\<open>with\<close> statement: the body, then \<^verbatim>\<open>Installer.__exit__\<close>.\<close>

abbreviation body_and_exit :: "library \<Rightarrow> unit script \<Rightarrow> unit script" where
  "body_and_exit env body \<equiv> (\<lambda>s.
     case body s of
       (Inr _, s1) \<Rightarrow> lib env (Installer_exit None) s1
     | (Inl e, s1) \<Rightarrow>
         (case lib env (Installer_exit (Some e)) s1 of
            (Inl e', s2) \<Rightarrow> (Inl e', s2)
          | (Inr _, s2) \<Rightarrow> if exit_suppresses env e then (Inr (), s2) else (Inl e, s2)))"

definition perform_installation :: "library \<Rightarrow> path \<Rightarrow> unit script" where
  "perform_installation env mountpoint =
     bind_script (lib env (Info ''Starting installation'')) (\<lambda>_.
     bind_script (arguments_item disk_config ''disk_config'') (\<lambda>disk_cfg.
     bind_script (arguments_get_default additional_repositories []) (\<lambda>repos_testing.
     bind_script (is_in ''testing'' repos_testing) (\<lambda>enable_testing.
     bind_script (arguments_get_default additional_repositories []) (\<lambda>repos_multilib.
     bind_script (is_in ''multilib'' repos_multilib) (\<lambda>enable_multilib.
     bind_script (arguments_item locale_config ''locale_config'') (\<lambda>locale_cfg.
     bind_script (arguments_get disk_encryption) (\<lambda>disk_enc.
     bind_script (arguments_get_default kernels [''linux-hardened'']) (\<lambda>kernel_list.
     bind_script
       (with_Installer env (Installer_init mountpoint disk_cfg disk_enc kernel_list)
         (seq [
            bind_script (getattr disk_cfg config_type ''config_type'') (\<lambda>layout.
              when_s (layout \<noteq> Pre_mount) (lib env Mount_ordered_layout)),
            lib env Sanity_check,
            bind_script (getattr disk_cfg config_type ''config_type'') (\<lambda>layout.
              when_s (layout \<noteq> Pre_mount)
                (when_some disk_enc (\<lambda>enc.
                   when_s (encryption_type enc \<noteq> NoEncryption) (lib env Generate_key_files)))),
            bind_script (arguments_get mirror_config) (\<lambda>mc.
              when_some mc (\<lambda>mirror_cfg. seq [
                when_s (mirror_regions mirror_cfg \<noteq> [])
                  (lib env (Use_mirrors (mirror_regions mirror_cfg))),
                when_s (custom_mirrors mirror_cfg \<noteq> [])
                  (lib env (Add_custom_mirrors (custom_mirrors mirror_cfg)))])),
            lib env (Add_custom_mirrors [
              \<lparr>name = ''Blackarch'',
               url = ''https://www.blackarch.org/blackarch/$repo/os/$arch'',
               sign_check = Required,
               sign_option = TrustAll\<rparr>]),
            bind_script (arguments_get_default hostname ''archlinux'') (\<lambda>host.
              lib env (Minimal_installation enable_testing enable_multilib host locale_cfg)),
            bind_script (arguments_get mirror_config) (\<lambda>mc.
              when_some mc (\<lambda>mirror_cfg. lib env (Set_mirrors mirror_cfg))),
            bind_script (arguments_get swap) (\<lambda>sw.
              when_s (sw = Some True) (lib env (Setup_swap ''zram''))),
            bind_script (arguments_get bootloader) (\<lambda>bl.
            bind_script (if bl = Some Grub then SysInfo_has_uefi env else ret False) (\<lambda>grub_uefi.
              when_s grub_uefi (lib env (Add_additional_packages (PkgStr ''grub''))))),
            lib env (Add_additional_packages (PkgList [
              ''neovim'',
              ''git'',
              ''curl'',
              ''wget'',
              ''nmap'',
              ''gnu-netcat'',
              ''base-devel'',
              ''openssh'',
              ''python'',
              ''neofetch'',
              ''rust'',
              ''nodejs'',
              ''yarn'',
              ''npm'',
              ''go'',
              ''ufw'',
              ''python-pip'',
              ''blackarch-keyring'',
              ''podman'',
              ''nginx'',
              ''mariadb'',
              ''postgresql'',
              ''cockpit'',
              ''cockpit-machines'',
              ''cockpit-podman'',
              ''cockpit-pcp'',
              ''cockpit-storaged''])),
            lib env (Enable_service (Some [
              ''nginx'',
              ''mariadb'',
              ''postgresql'',
              ''cockpit'',
              ''sshd''])),
            bind_script (arguments_item bootloader ''bootloader'') (\<lambda>bl.
              lib env (Add_bootloader bl)),
            lib env Copy_iso_network_config,
            bind_script (arguments_get users) (\<lambda>us.
              when_nonempty us (\<lambda>user_list. lib env (Create_users user_list))),
            bind_script user_packages_given (\<lambda>given.
              when_s given
                (bind_script (arguments_get_default packages []) (\<lambda>pkgs.
                   lib env (Add_additional_packages
                     (case pkgs of None \<Rightarrow> PkgNone | Some ps \<Rightarrow> PkgList ps))))),
            bind_script (arguments_get timezone) (\<lambda>tz.
              when_nonempty tz (\<lambda>zone. lib env (Set_timezone zone))),
            bind_script (arguments_get_default ntp False) (\<lambda>use_ntp.
              when_s (use_ntp = Some True) (lib env Activate_time_synchronization)),
            bind_script (archinstall_accessibility_tools_in_use env) (\<lambda>tools.
              when_s tools (lib env Enable_espeakup)),
            bind_script (arguments_get root_password) (\<lambda>pw.
              when_nonempty pw (\<lambda>root_pw. lib env (User_set_pw ''root'' root_pw))),
            bind_script (getattr locale_cfg kb_layout ''kb_layout'') (\<lambda>layout.
              lib env (Set_keyboard_language layout)),
            bind_script (arguments_get services) (\<lambda>sv.
              when_nonempty sv (\<lambda>_.
                bind_script (arguments_get_default services []) (\<lambda>service_list.
                  lib env (Enable_service service_list)))),
            lib env (Run_custom_user_commands (Some install_paru)),
            lib env (Run_custom_user_commands (Some [
              ''mariadb-install-db --user=mysql --basedir=/usr --datadir=/var/lib/mysql''])),
            bind_script (arguments_get_default users []) (\<lambda>us.
              for_in us (\<lambda>user.
                lib env (Run_custom_user_commands (Some [
                  ''usermod -a -G docker '' @ username user])))),
            lib env (Run_custom_user_commands (Some [
              ''sudo -u postgres initdb -D /var/lib/postgres/data''])),
            bind_script (arguments_get custom_commands) (\<lambda>cc.
              when_nonempty cc (\<lambda>_.
                bind_script (arguments_item custom_commands ''custom-commands'') (\<lambda>commands.
                  lib env (Run_custom_user_commands commands)))),
            lib env Genfstab,
            lib env (Info ''For post-installation tips, see https://wiki.archlinux.org/index.php/Installation_guide#Post-installation''),
            bind_script (arguments_get silent) (\<lambda>quiet.
              when_s (quiet \<noteq> Some True)
                (bind_script (translate env ''Would you like to chroot into the newly created installation and perform post-installation configuration?'') (\<lambda>prompt.
                 bind_script (Menu_yes_no_options env) (\<lambda>options.
                 bind_script (Menu_yes_option env) (\<lambda>default_option.
                 bind_script (lib env (Menu_init prompt options default_option)) (\<lambda>_.
                 bind_script (Menu_run_value env) (\<lambda>choice.
                 bind_script (Menu_yes_option env) (\<lambda>yes.
                   when_s (choice = yes)
                     (try_except_Exception (lib env Drop_to_shell))))))))))]))
       (\<lambda>_.
     bind_script (disk_disk_layouts env) (\<lambda>layouts.
       lib env (Debug (''Disk states after installing: '' @ layouts)))))))))))))"

section \<open>The script\<close>

text \<open>\<^verbatim>\<open>archinstall.storage.get('MOUNT_POINT', Path('/mnt'))\<close>\<close>

definition storage_get_MOUNT_POINT :: "library \<Rightarrow> path script" where
  "storage_get_MOUNT_POINT env =
     ret (case storage_mount_point env of None \<Rightarrow> ''/mnt'' | Some p \<Rightarrow> p)"

definition main :: "library \<Rightarrow> unit script" where
  "main env =
     bind_script (ask_user_questions env) (\<lambda>_.
     bind_script (arguments_item disk_config ''disk_config'') (\<lambda>disk_cfg.
     bind_script (arguments_get disk_encryption) (\<lambda>disk_enc.
     bind_script (lib env (FilesystemHandler_init disk_cfg disk_enc)) (\<lambda>_.
     bind_script (lib env Perform_filesystem_operations) (\<lambda>_.
     bind_script (storage_get_MOUNT_POINT env) (\<lambda>mount_point.
       perform_installation env mount_point))))))"

section \<open>What the traces are asked\<close>






text \<open>The command lists handed to \<^verbatim>\<open>run_custom_user_commands\<close>.\<close>

definition command_lists :: "call \<Rightarrow> string list list" where
  "command_lists c = (case c of Run_custom_user_commands (Some cs) \<Rightarrow> [cs] | _ \<Rightarrow> [])"


text \<open>
  What the \<^verbatim>\<open>Installer\<close> is constructed with as \<^verbatim>\<open>kernels\<close>, once for each
  construction.
\<close>

definition installer_kernels :: "call \<Rightarrow> string list option list" where
  "installer_kernels c = (case c of Installer_init mp dc de ks \<Rightarrow> [ks] | _ \<Rightarrow> [])"


subsection \<open>The calls that come first\<close>





subsection \<open>Failures\<close>

definition raised :: "exn + 'a \<Rightarrow> exn option" where
  "raised r = (case r of Inl e \<Rightarrow> Some e | Inr _ \<Rightarrow> None)"

text \<open>
  \<open>stops_at_failure r evs\<close>: in \<open>evs\<close>, a call other than \<^verbatim>\<open>drop_to_shell\<close> that
  raised is the last call, and what it raised is the outcome \<open>r\<close>.
\<close>

fun stops_at_failure :: "exn option \<Rightarrow> event list \<Rightarrow> bool" where
  "stops_at_failure r [] = True"
| "stops_at_failure r ((c, None) # evs) = stops_at_failure r evs"
| "stops_at_failure r ((c, Some e) # evs) =
     (if c = Drop_to_shell then stops_at_failure r evs else r = Some e \<and> evs = [])"

text \<open>
  \<open>propagated r evs\<close>: the same, but the \<^verbatim>\<open>with\<close> statement hands the exception to
  \<^verbatim>\<open>Installer.__exit__\<close>, so that one call may follow the call that raised.
\<close>

fun propagated :: "exn option \<Rightarrow> event list \<Rightarrow> bool" where
  "propagated r [] = True"
| "propagated r ((c, None) # evs) = propagated r evs"
| "propagated r ((c, Some e) # evs) =
     (if c = Drop_to_shell then propagated r evs
      else r = Some e \<and>
        (evs = [] \<or> evs = [(Installer_exit (Some e), None)]
          \<or> evs = [(Installer_exit (Some e), Some e)]))"

subsection \<open>Phases\<close>

datatype phase = Configure | Prepare_disks | Install

definition phase_of :: "call \<Rightarrow> phase" where
  "phase_of c =
     (case c of
        GlobalMenu_init \<Rightarrow> Configure
      | GlobalMenu_enable k m \<Rightarrow> Configure
      | GlobalMenu_run \<Rightarrow> Configure
      | FilesystemHandler_init dc de \<Rightarrow> Prepare_disks
      | Perform_filesystem_operations \<Rightarrow> Prepare_disks
      | _ \<Rightarrow> Install)"

text \<open>
  How far the script has come: the menu has not returned yet, the menu has returned, the
  filesystem operations have returned.
\<close>

datatype progress = Asking | Asked | Disks_ready

text \<open>
  One event, seen from a stage: \<open>None\<close> when a call of that phase must not happen there.
\<close>

definition step :: "progress \<Rightarrow> event \<Rightarrow> progress option" where
  "step st ev =
     (case (st, phase_of (fst ev)) of
        (Asking, Configure) \<Rightarrow>
          Some (if fst ev = GlobalMenu_run \<and> snd ev = None then Asked else Asking)
      | (Asked, Prepare_disks) \<Rightarrow>
          Some (if fst ev = Perform_filesystem_operations \<and> snd ev = None
                then Disks_ready else Asked)
      | (Disks_ready, Install) \<Rightarrow> Some Disks_ready
      | _ \<Rightarrow> None)"

fun run :: "progress \<Rightarrow> event list \<Rightarrow> progress option" where
  "run st [] = Some st"
| "run st (ev # evs) = (case step st ev of None \<Rightarrow> None | Some st' \<Rightarrow> run st' evs)"

subsection \<open>Libraries and configurations to run the script on\<close>

text \<open>A library in which no call raises; the user answers yes to the final question.\<close>

definition quiet_library :: library where
  "quiet_library =
     \<lparr>raises = (\<lambda>h c. None), exit_suppresses = (\<lambda>e. False), has_uefi = True,
      accessibility_tools_in_use = False, translation = (\<lambda>m. m),
      menu_yes_no = [''yes'', ''no''], menu_yes = ''yes'', menu_choice = ''yes'',
      storage_mount_point = None, disk_layouts = ''[]'', menu_input = (\<lambda>a. a)\<rparr>"

text \<open>The shell ends with a non-zero status: \<^verbatim>\<open>drop_to_shell\<close> raises an \<^verbatim>\<open>Exception\<close>.\<close>

definition failed_shell_library :: library where
  "failed_shell_library =
     quiet_library\<lparr>raises :=
       (\<lambda>h c. if c = Drop_to_shell then Some (Exception ''CalledProcessError'') else None)\<rparr>"

text \<open>The user interrupts the shell: \<^verbatim>\<open>drop_to_shell\<close> raises \<^verbatim>\<open>KeyboardInterrupt\<close>.\<close>

definition interrupted_library :: library where
  "interrupted_library =
     quiet_library\<lparr>raises :=
       (\<lambda>h c. if c = Drop_to_shell then Some KeyboardInterrupt else None)\<rparr>"

text \<open>The shell ends with \<^verbatim>\<open>sys.exit\<close>: \<^verbatim>\<open>drop_to_shell\<close> raises \<^verbatim>\<open>SystemExit\<close>.\<close>

definition exited_library :: library where
  "exited_library =
     quiet_library\<lparr>raises :=
       (\<lambda>h c. if c = Drop_to_shell then Some SystemExit else None)\<rparr>"

text \<open>\<^verbatim>\<open>sanity_check\<close> raises; \<^verbatim>\<open>Installer.__exit__\<close> raises the exception it is given.\<close>

definition failing_library :: library where
  "failing_library =
     quiet_library\<lparr>raises :=
       (\<lambda>h c. if c = Sanity_check then Some (Exception ''no network'')
              else (case c of Installer_exit (Some e) \<Rightarrow> Some e | _ \<Rightarrow> None))\<rparr>"

definition sample_config :: config_bag where
  "sample_config =
     \<lparr>disk_config = Some (Some \<lparr>config_type = Default\<rparr>),
      additional_repositories = Some (Some [''multilib'']),
      locale_config =
        Some (Some \<lparr>kb_layout = ''us'', sys_lang = ''en_US'', sys_enc = ''UTF-8''\<rparr>),
      disk_encryption = None,
      kernels = None,
      mirror_config = None,
      hostname = Some (Some ''petabox''),
      swap = Some (Some True),
      bootloader = Some (Some Grub),
      users = Some (Some [\<lparr>username = ''alice'', password = ''secret'', sudo = True\<rparr>]),
      packages = Some (Some ['''', ''htop'']),
      timezone = Some (Some ''UTC''),
      ntp = Some (Some True),
      root_password = Some (Some ''toor''),
      services = None,
      custom_commands = None,
      silent = None\<rparr>"

definition sample_state :: script_state where
  "sample_state = \<lparr>arguments = sample_config, trace = []\<rparr>"

text \<open>The same configuration with another user.\<close>

definition other_state :: script_state where
  "other_state =
     \<lparr>arguments = sample_config\<lparr>users :=
        Some (Some [\<lparr>username = ''bob'', password = ''secret'', sudo = True\<rparr>])\<rparr>,
      trace = []\<rparr>"

text \<open>The same configuration without the key \<^verbatim>\<open>bootloader\<close>: line 175 raises.\<close>

definition no_bootloader_state :: script_state where
  "no_bootloader_state = \<lparr>arguments = sample_config\<lparr>bootloader := None\<rparr>, trace = []\<rparr>"

text \<open>The same configuration with the packages \<^verbatim>\<open>['htop']\<close>.\<close>

definition htop_state :: script_state where
  "htop_state =
     \<lparr>arguments = sample_config\<lparr>packages := Some (Some [''htop''])\<rparr>, trace = []\<rparr>"

section \<open>Properties of scripts, to reason statement by statement\<close>

text \<open>
  \<open>yields a f m x a' cs\<close>: started with the configuration \<open>a\<close>, a run of \<open>m\<close> only
  adds calls to the trace. When it returns normally, it returns \<open>x\<close>, leaves the
  configuration \<open>a'\<close> and has made the calls of which \<open>f\<close> keeps \<open>cs\<close>; when it
  raises, \<open>f\<close> keeps a prefix of \<open>cs\<close> of the calls it has made.
\<close>

definition yields ::
  "config_bag \<Rightarrow> (call \<Rightarrow> 'b list) \<Rightarrow> 'a script \<Rightarrow> 'a \<Rightarrow> config_bag \<Rightarrow> 'b list \<Rightarrow> bool" where
  "yields a f m x a' cs \<longleftrightarrow>
     (\<forall>s. arguments s = a \<longrightarrow>
        (\<exists>evs. trace (snd (m s)) = trace s @ evs \<and>
           (case fst (m s) of
              Inr r \<Rightarrow> r = x \<and> arguments (snd (m s)) = a' \<and> collect f evs = cs
            | Inl e \<Rightarrow> prefix (collect f evs) cs)))"

text \<open>
  \<open>bounded a f m cs\<close>: started with the configuration \<open>a\<close>, however \<open>m\<close> ends, \<open>f\<close>
  keeps a prefix of \<open>cs\<close> of the calls it has made.
\<close>

definition bounded :: "config_bag \<Rightarrow> (call \<Rightarrow> 'b list) \<Rightarrow> 'a script \<Rightarrow> 'b list \<Rightarrow> bool" where
  "bounded a f m cs \<longleftrightarrow>
     (\<forall>s. arguments s = a \<longrightarrow>
        (\<exists>evs. trace (snd (m s)) = trace s @ evs \<and> prefix (collect f evs) cs))"

text \<open>
  \<open>runs a f m x cs\<close>: started with the configuration \<open>a\<close>, \<open>m\<close> returns \<open>x\<close>, keeps
  \<open>a\<close> and has made the calls of which \<open>f\<close> keeps \<open>cs\<close>.
\<close>

definition runs :: "config_bag \<Rightarrow> (call \<Rightarrow> 'b list) \<Rightarrow> 'a script \<Rightarrow> 'a \<Rightarrow> 'b list \<Rightarrow> bool" where
  "runs a f m x cs \<longleftrightarrow>
     (\<forall>s. arguments s = a \<longrightarrow>
        fst (m s) = Inr x \<and> arguments (snd (m s)) = a \<and>
        (\<exists>evs. trace (snd (m s)) = trace s @ evs \<and> collect f evs = cs))"

text \<open>\<open>grows m\<close>: \<open>m\<close> only adds calls to the trace.\<close>

definition grows :: "'a script \<Rightarrow> bool" where
  "grows m \<longleftrightarrow> (\<forall>s. \<exists>evs. trace (snd (m s)) = trace s @ evs)"

text \<open>
  \<open>hits a f m cs c\<close>: started with the configuration \<open>a\<close>, \<open>m\<close> makes the call \<open>c\<close>,
  however it ends after that; of the calls it has made before, \<open>f\<close> keeps \<open>cs\<close>.
\<close>

definition hits :: "config_bag \<Rightarrow> (call \<Rightarrow> 'b list) \<Rightarrow> 'a script \<Rightarrow> 'b list \<Rightarrow> call \<Rightarrow> bool" where
  "hits a f m cs c \<longleftrightarrow>
     (\<forall>s. arguments s = a \<longrightarrow>
        (\<exists>evs1 out evs2. trace (snd (m s)) = trace s @ evs1 @ (c, out) # evs2 \<and>
           collect f evs1 = cs))"


text \<open>\<open>preserves m\<close>: \<open>m\<close> leaves the configuration as it is, however it ends.\<close>

definition preserves :: "'a script \<Rightarrow> bool" where
  "preserves m \<longleftrightarrow> (\<forall>s. arguments (snd (m s)) = arguments s)"

text \<open>\<open>fails_fast m\<close>: \<open>m\<close> only adds calls to the trace, and stops at the first that raises.\<close>

definition fails_fast :: "'a script \<Rightarrow> bool" where
  "fails_fast m \<longleftrightarrow>
     (\<forall>s. \<exists>evs. trace (snd (m s)) = trace s @ evs \<and> stops_at_failure (raised (fst (m s))) evs)"

definition propagates :: "'a script \<Rightarrow> bool" where
  "propagates m \<longleftrightarrow>
     (\<forall>s. \<exists>evs. trace (snd (m s)) = trace s @ evs \<and> propagated (raised (fst (m s))) evs)"

text \<open>
  \<open>advances st m st'\<close>: from the stage \<open>st\<close>, the calls of \<open>m\<close> are all allowed, and lead
  to the stage \<open>st'\<close> when \<open>m\<close> returns normally.
\<close>

definition advances :: "progress \<Rightarrow> 'a script \<Rightarrow> progress \<Rightarrow> bool" where
  "advances st m st' \<longleftrightarrow>
     (\<forall>s. \<exists>evs. trace (snd (m s)) = trace s @ evs \<and>
        (case fst (m s) of Inr _ \<Rightarrow> run st evs = Some st' | Inl _ \<Rightarrow> run st evs \<noteq> None))"

section \<open>Calls made by a run\<close>

lemma collect_simps [simp]:
  "collect f [] = []"
  "collect f (ev # evs) = f (fst ev) @ collect f evs"
  "collect f (xs @ ys) = collect f xs @ collect f ys"
  by (simp_all add: collect_def)

lemma yieldsI:
  assumes "\<And>s. arguments s = a \<Longrightarrow>
     \<exists>evs. trace (snd (m s)) = trace s @ evs \<and>
       (case fst (m s) of
          Inr r \<Rightarrow> r = x \<and> arguments (snd (m s)) = a' \<and> collect f evs = cs
        | Inl e \<Rightarrow> prefix (collect f evs) cs)"
  shows "yields a f m x a' cs"
  using assms unfolding yields_def by blast

lemma yieldsE:
  assumes "yields a f m x a' cs" and "arguments s = a" and "m s = (Inr r, s')"
  obtains evs where "r = x" and "arguments s' = a'" and "trace s' = trace s @ evs"
    and "collect f evs = cs"
  using assms unfolding yields_def by fastforce

lemma yields_raisesE:
  assumes "yields a f m x a' cs" and "arguments s = a" and "m s = (Inl e, s')"
  obtains evs where "trace s' = trace s @ evs" and "prefix (collect f evs) cs"
  using assms unfolding yields_def by fastforce

text \<open>The form in which the claims use it.\<close>

lemma yields_collect:
  assumes y: "yields (arguments s) f m x a' cs" and ok: "fst (m s) = Inr r"
  shows "collect f (trace (snd (m s))) = collect f (trace s) @ cs"
proof -
  from ok have "m s = (Inr r, snd (m s))"
    by (metis prod.collapse)
  with y obtain evs where "trace (snd (m s)) = trace s @ evs" and "collect f evs = cs"
    by (auto elim: yieldsE)
  then show ?thesis by simp
qed

lemma yields_ret: "yields a f (ret x) x a []"
  by (rule yieldsI) (simp add: ret_def)

lemma yields_raise: "yields a f (raise e) x a []"
  by (rule yieldsI) (simp add: raise_def)

lemma yields_bind:
  assumes "yields a f m x a1 cs" and "yields a1 f (k x) y a2 ds"
  shows "yields a f (bind_script m k) y a2 (cs @ ds)"
proof (rule yieldsI)
  fix s :: script_state
  assume a: "arguments s = a"
  obtain r1 s1 where m: "m s = (r1, s1)"
    by (cases "m s")
  show "\<exists>evs. trace (snd (bind_script m k s)) = trace s @ evs \<and>
       (case fst (bind_script m k s) of
          Inr r \<Rightarrow> r = y \<and> arguments (snd (bind_script m k s)) = a2 \<and> collect f evs = cs @ ds
        | Inl e \<Rightarrow> prefix (collect f evs) (cs @ ds))"
  proof (cases r1)
    case (Inl e)
    with assms(1) a m obtain evs where "trace s1 = trace s @ evs" "prefix (collect f evs) cs"
      by (auto elim: yields_raisesE)
    with m Inl show ?thesis
      by (auto simp: bind_script_def intro: prefix_prefix)
  next
    case (Inr x')
    with assms(1) a m obtain evs1 where 1: "x' = x" "arguments s1 = a1"
        "trace s1 = trace s @ evs1" "collect f evs1 = cs"
      by (auto elim: yieldsE)
    obtain r2 s2 where k: "k x s1 = (r2, s2)"
      by (cases "k x s1")
    have run: "bind_script m k s = (r2, s2)"
      using m Inr 1(1) k by (simp add: bind_script_def)
    show ?thesis
    proof (cases r2)
      case (Inl e)
      with assms(2) 1(2) k obtain evs2 where "trace s2 = trace s1 @ evs2"
          "prefix (collect f evs2) ds"
        by (auto elim: yields_raisesE)
      with 1 run Inl show ?thesis by auto
    next
      case (Inr z)
      with assms(2) 1(2) k obtain evs2 where "z = y" "arguments s2 = a2"
          "trace s2 = trace s1 @ evs2" "collect f evs2 = ds"
        by (auto elim: yieldsE)
      with 1 run Inr show ?thesis by auto
    qed
  qed
qed

lemma yields_seq_Nil: "yields a f (seq []) () a []"
  by (simp add: yields_ret)

lemma yields_seq_Cons:
  "yields a f p () a1 cs \<Longrightarrow> yields a1 f (seq ps) () a2 ds \<Longrightarrow>
   yields a f (seq (p # ps)) () a2 (cs @ ds)"
  by (simp add: yields_bind)

lemma yields_lib: "yields a f (lib env c) () a (f c)"
  by (rule yieldsI) (auto simp: lib_def split: option.splits)

lemma yields_GlobalMenu_run_store:
  "yields a f (GlobalMenu_run_store env) () (menu_input env a) (f GlobalMenu_run)"
  by (rule yieldsI)
    (auto simp: GlobalMenu_run_store_def bind_script_def lib_def split: option.splits)

lemma yields_query: "yields a f (bind_script (lib env c) (\<lambda>_. ret v)) v a (f c)"
  by (rule yieldsI) (auto simp: bind_script_def lib_def ret_def split: option.splits)

lemma yields_queries:
  "yields a f (SysInfo_has_uefi env) (has_uefi env) a (f Has_uefi)"
  "yields a f (archinstall_accessibility_tools_in_use env) (accessibility_tools_in_use env) a
     (f Accessibility_tools_in_use)"
  "yields a f (translate env msg) (translation env msg) a (f (Translate msg))"
  "yields a f (Menu_yes_no_options env) (menu_yes_no env) a (f Menu_yes_no)"
  "yields a f (Menu_yes_option env) (menu_yes env) a (f Menu_yes)"
  "yields a f (Menu_run_value env) (menu_choice env) a (f Menu_run)"
  "yields a f (disk_disk_layouts env) (disk_layouts env) a (f Disk_layouts)"
  unfolding SysInfo_has_uefi_def archinstall_accessibility_tools_in_use_def translate_def
    Menu_yes_no_options_def Menu_yes_option_def Menu_run_value_def disk_disk_layouts_def
  by (rule yields_query)+

lemma yields_arguments_get:
  "yields a f (arguments_get field) (case field a of None \<Rightarrow> None | Some v \<Rightarrow> v) a []"
  by (rule yieldsI) (auto simp: arguments_get_def)

lemma yields_arguments_get_default:
  "yields a f (arguments_get_default field d)
     (case field a of None \<Rightarrow> Some d | Some v \<Rightarrow> v) a []"
  by (rule yieldsI) (auto simp: arguments_get_default_def)

text \<open>
  A run that returns normally has found the key, the attribute, or a list to look
  through.
\<close>

lemma yields_arguments_item: "yields a f (arguments_item field key) (the (field a)) a []"
  by (rule yieldsI) (auto simp: arguments_item_def split: option.splits)

lemma yields_getattr: "yields a f (getattr obj attr attr_name) (attr (the obj)) a []"
  by (rule yieldsI) (auto simp: getattr_def ret_def raise_def split: option.splits)

lemma yields_is_in: "yields a f (is_in x xs) (x \<in> set (the xs)) a []"
  by (rule yieldsI) (auto simp: is_in_def ret_def raise_def split: option.splits)

lemma yields_storage_get: 
  "yields a f (storage_get_MOUNT_POINT env)
     (case storage_mount_point env of None \<Rightarrow> ''/mnt'' | Some p \<Rightarrow> p) a []"
  by (simp add: storage_get_MOUNT_POINT_def yields_ret)

lemma yields_user_packages_given:
  "yields a f user_packages_given
     (case packages a of Some (Some (p # ps)) \<Rightarrow> p \<noteq> [] | _ \<Rightarrow> False) a []"
  by (rule yieldsI)
    (auto simp: user_packages_given_def bind_script_def arguments_get_def subscript0_def
      ret_def raise_def split: option.splits list.splits)

lemma yields_when_s:
  "yields a f p () a cs \<Longrightarrow> yields a f (when_s b p) () a (if b then cs else [])"
  by (simp add: when_s_def yields_ret)

lemma yields_if:
  "yields a f p x a' cs \<Longrightarrow> yields a f q y a' ds \<Longrightarrow>
   yields a f (if b then p else q) (if b then x else y) a' (if b then cs else ds)"
  by simp

lemma yields_when_some:
  assumes "\<And>v. yields a f (body v) () a (ds v)"
  shows "yields a f (when_some x body) () a (case x of None \<Rightarrow> [] | Some v \<Rightarrow> ds v)"
  using assms by (cases x) (simp_all add: when_some_def yields_ret)

lemma yields_when_nonempty:
  assumes "\<And>v. yields a f (body v) () a (ds v)"
  shows "yields a f (when_nonempty x body) () a
           (case x of None \<Rightarrow> [] | Some [] \<Rightarrow> [] | Some (v # vs) \<Rightarrow> ds (v # vs))"
  using assms by (cases x) (simp_all add: when_nonempty_def yields_ret split: list.splits)

lemma yields_for_each:
  assumes "\<And>v. yields a f (body v) () a (ds v)"
  shows "yields a f (for_each xs body) () a (concat (map ds xs))"
proof (induction xs)
  case Nil
  show ?case by (simp add: yields_ret)
next
  case (Cons x xs)
  show ?case using yields_bind [OF assms [of x] Cons.IH] by simp
qed

lemma yields_for_in:
  assumes "\<And>v. yields a f (body v) () a (ds v)"
  shows "yields a f (for_in xs body) () a
           (case xs of None \<Rightarrow> [] | Some ys \<Rightarrow> concat (map ds ys))"
  using assms by (cases xs) (simp_all add: for_in_def yields_raise yields_for_each)

lemma yields_try_lib: "yields a f (try_except_Exception (lib env c)) () a (f c)"
  by (rule yieldsI) (auto simp: try_except_Exception_def lib_def split: option.splits if_splits)

text \<open>
  The \<^verbatim>\<open>with\<close> statement, for calls other than \<^verbatim>\<open>Installer.__exit__\<close>. When
  \<^verbatim>\<open>Installer.__exit__\<close> never returns a true value for an exception, the statement
  returns normally only if its body has.
\<close>

lemma yields_with_Installer:
  assumes nosup: "\<forall>e. \<not> exit_suppresses env e" and fexit: "\<And>e. f (Installer_exit e) = []"
    and body: "yields a f body () a cs"
  shows "yields a f (with_Installer env ctor body) () a (f ctor @ f Installer_enter @ cs)"
proof (rule yieldsI)
  fix s :: script_state
  assume a: "arguments s = a"
  let ?w = "with_Installer env ctor body s"
  let ?goal = "\<exists>evs. trace (snd ?w) = trace s @ evs \<and>
       (case fst ?w of
          Inr r \<Rightarrow> r = () \<and> arguments (snd ?w) = a \<and>
            collect f evs = f ctor @ f Installer_enter @ cs
        | Inl e \<Rightarrow> prefix (collect f evs) (f ctor @ f Installer_enter @ cs))"
  show ?goal
  proof (cases "raises env (trace s) ctor")
    case (Some e)
    then show ?thesis
      by (auto simp: with_Installer_def bind_script_def lib_def)
  next
    case ctor: None
    define s0 where "s0 = s\<lparr>trace := trace s @ [(ctor, None)]\<rparr>"
    show ?thesis
    proof (cases "raises env (trace s0) Installer_enter")
      case (Some e)
      with ctor show ?thesis
        by (auto simp: with_Installer_def bind_script_def lib_def s0_def)
    next
      case enter: None
      define s1 where "s1 = s0\<lparr>trace := trace s0 @ [(Installer_enter, None)]\<rparr>"
      have a1: "arguments s1 = a" and t1: "trace s1 = trace s @ [(ctor, None), (Installer_enter, None)]"
        using a by (simp_all add: s1_def s0_def)
      obtain r2 s2 where b: "body s1 = (r2, s2)"
        by (cases "body s1")
      have w: "?w = (case r2 of
            Inr u \<Rightarrow> lib env (Installer_exit None) s2
          | Inl e \<Rightarrow>
              (case lib env (Installer_exit (Some e)) s2 of
                 (Inl e', s3) \<Rightarrow> (Inl e', s3)
               | (Inr u, s3) \<Rightarrow> if exit_suppresses env e then (Inr (), s3) else (Inl e, s3)))"
        using ctor enter b
        by (simp add: with_Installer_def bind_script_def lib_def s0_def s1_def)
      show ?thesis
      proof (cases r2)
        case (Inl e)
        with body a1 b obtain evs where "trace s2 = trace s1 @ evs" "prefix (collect f evs) cs"
          by (auto elim: yields_raisesE)
        with w Inl t1 nosup fexit show ?thesis
          by (auto simp: lib_def split: option.splits)
      next
        case (Inr u)
        with body a1 b obtain evs where "arguments s2 = a" "trace s2 = trace s1 @ evs"
            "collect f evs = cs"
          by (auto elim: yieldsE)
        with w Inr t1 fexit show ?thesis
          by (auto simp: lib_def split: option.splits)
      qed
    qed
  qed
qed

lemma yields_conseq:
  "yields a f m x a' cs \<Longrightarrow> a' = b \<Longrightarrow> cs = ds \<Longrightarrow> yields a f m x b ds"
  by simp

lemmas yields_intros =
  yields_arguments_item yields_getattr yields_is_in yields_queries yields_user_packages_given
  yields_storage_get yields_seq_Cons yields_seq_Nil yields_lib yields_GlobalMenu_run_store
  yields_arguments_get yields_arguments_get_default yields_when_s yields_if
  yields_when_some yields_when_nonempty yields_for_each yields_for_in yields_try_lib
  yields_ret yields_bind

lemma case_empty [simp]:
  "(case x of None \<Rightarrow> [] | Some v \<Rightarrow> []) = []"
  "(case y of None \<Rightarrow> [] | Some [] \<Rightarrow> [] | Some (v # vs) \<Rightarrow> []) = []"
  "concat (map (\<lambda>v. []) zs) = []"
  by (simp_all split: option.splits list.splits)

lemmas splice_simps = append_Nil2 append.simps if_cancel case_empty call.case
  pkg_arg.case option.case

subsection \<open>However the run ends\<close>

lemma boundedI:
  assumes "\<And>s. arguments s = a \<Longrightarrow>
     \<exists>evs. trace (snd (m s)) = trace s @ evs \<and> prefix (collect f evs) cs"
  shows "bounded a f m cs"
  using assms unfolding bounded_def by blast

lemma boundedD:
  assumes "bounded (arguments s) f m cs"
  shows "\<exists>evs. trace (snd (m s)) = trace s @ evs \<and> prefix (collect f evs) cs"
  using assms unfolding bounded_def by blast

lemma bounded_yields: "yields a f m x a' cs \<Longrightarrow> bounded a f m cs"
  unfolding yields_def bounded_def
  by (fastforce split: sum.splits)

lemma bounded_bind:
  assumes "yields a f m x a1 cs" and "bounded a1 f (k x) ds"
  shows "bounded a f (bind_script m k) (cs @ ds)"
proof (rule boundedI)
  fix s :: script_state
  assume a: "arguments s = a"
  obtain r1 s1 where m: "m s = (r1, s1)"
    by (cases "m s")
  show "\<exists>evs. trace (snd (bind_script m k s)) = trace s @ evs \<and>
      prefix (collect f evs) (cs @ ds)"
  proof (cases r1)
    case (Inl e)
    with assms(1) a m obtain evs where "trace s1 = trace s @ evs" "prefix (collect f evs) cs"
      by (auto elim: yields_raisesE)
    with m Inl show ?thesis
      by (auto simp: bind_script_def intro: prefix_prefix)
  next
    case (Inr x')
    with assms(1) a m obtain evs1 where 1: "x' = x" "arguments s1 = a1"
        "trace s1 = trace s @ evs1" "collect f evs1 = cs"
      by (auto elim: yieldsE)
    from assms(2) 1(2) obtain evs2 where "trace (snd (k x s1)) = trace s1 @ evs2"
        "prefix (collect f evs2) ds"
      unfolding bounded_def by blast
    with m Inr 1 show ?thesis
      by (auto simp: bind_script_def)
  qed
qed

text \<open>
  The \<^verbatim>\<open>with\<close> statement and what follows it, for calls other than
  \<^verbatim>\<open>Installer.__exit__\<close> and those that follow: whatever \<^verbatim>\<open>Installer.__exit__\<close>
  does with an exception.
\<close>

lemma bounded_with_Installer:
  assumes fexit: "\<And>e. f (Installer_exit e) = []"
    and rest: "\<And>a' u. bounded a' f (k u) []"
    and body: "yields a f body () a cs"
  shows "bounded a f (bind_script (with_Installer env ctor body) k)
           (f ctor @ f Installer_enter @ cs)"
proof (rule boundedI)
  fix s :: script_state
  assume a: "arguments s = a"
  let ?w = "with_Installer env ctor body s"
  have w: "\<exists>evs. trace (snd ?w) = trace s @ evs \<and>
      prefix (collect f evs) (f ctor @ f Installer_enter @ cs)"
  proof (cases "raises env (trace s) ctor")
    case (Some e)
    then show ?thesis
      by (auto simp: with_Installer_def bind_script_def lib_def)
  next
    case ctor: None
    define s0 where "s0 = s\<lparr>trace := trace s @ [(ctor, None)]\<rparr>"
    show ?thesis
    proof (cases "raises env (trace s0) Installer_enter")
      case (Some e)
      with ctor show ?thesis
        by (auto simp: with_Installer_def bind_script_def lib_def s0_def)
    next
      case enter: None
      define s1 where "s1 = s0\<lparr>trace := trace s0 @ [(Installer_enter, None)]\<rparr>"
      have a1: "arguments s1 = a" and t1: "trace s1 = trace s @ [(ctor, None), (Installer_enter, None)]"
        using a by (simp_all add: s1_def s0_def)
      obtain r2 s2 where b: "body s1 = (r2, s2)"
        by (cases "body s1")
      have w: "?w = (case r2 of
            Inr u \<Rightarrow> lib env (Installer_exit None) s2
          | Inl e \<Rightarrow>
              (case lib env (Installer_exit (Some e)) s2 of
                 (Inl e', s3) \<Rightarrow> (Inl e', s3)
               | (Inr u, s3) \<Rightarrow> if exit_suppresses env e then (Inr (), s3) else (Inl e, s3)))"
        using ctor enter b
        by (simp add: with_Installer_def bind_script_def lib_def s0_def s1_def)
      from bounded_yields [OF body] a1 obtain evs where "trace (snd (body s1)) = trace s1 @ evs"
          "prefix (collect f evs) cs"
        unfolding bounded_def by blast
      with w b t1 fexit show ?thesis
        by (auto simp: lib_def split: option.splits sum.splits)
    qed
  qed
  then obtain evs1 where 1: "trace (snd ?w) = trace s @ evs1"
      "prefix (collect f evs1) (f ctor @ f Installer_enter @ cs)"
    by blast
  show "\<exists>evs. trace (snd (bind_script (with_Installer env ctor body) k s)) = trace s @ evs \<and>
      prefix (collect f evs) (f ctor @ f Installer_enter @ cs)"
  proof (cases "fst ?w")
    case (Inl e)
    with 1 show ?thesis
      by (auto simp: bind_script_def split: prod.splits)
  next
    case (Inr u)
    from rest [of "arguments (snd ?w)" u] obtain evs2
      where "trace (snd (k u (snd ?w))) = trace (snd ?w) @ evs2" "collect f evs2 = []"
      unfolding bounded_def by fastforce
    with 1 Inr show ?thesis
      by (auto simp: bind_script_def split: prod.splits)
  qed
qed

lemma bounded_conseq: "bounded a f m cs \<Longrightarrow> cs = ds \<Longrightarrow> bounded a f m ds"
  by simp

subsection \<open>The menu entries\<close>

lemma yields_ask_user_questions:
  "yields a menu_entry (ask_user_questions env) () (menu_input env a)
     [''archinstall-language'', ''mirror_config'', ''locale_config'', ''disk_config'',
      ''disk_encryption'', ''bootloader'', ''hostname'', ''!root-password'', ''!users'',
      ''packages'', ''parallel downloads'', ''timezone'', ''ntp'',
      ''additional-repositories'', ''__separator__'', ''install'', ''save_config'', ''abort'']"
  unfolding ask_user_questions_def
  apply (rule yields_conseq)
    apply (rule yields_intros)+
   apply (rule refl)
  apply (simp only: menu_entry_def splice_simps)
  done

lemmas script_defs = perform_installation_def ask_user_questions_def main_def
  GlobalMenu_run_store_def storage_get_MOUNT_POINT_def bind_script_def lib_def ret_def
  raise_def when_s_def when_some_def when_nonempty_def arguments_item_def arguments_get_def
  arguments_get_default_def getattr_def is_in_def for_in_def with_Installer_def
  try_except_Exception_def user_packages_given_def subscript0_def SysInfo_has_uefi_def
  archinstall_accessibility_tools_in_use_def translate_def Menu_yes_no_options_def
  Menu_yes_option_def Menu_run_value_def disk_disk_layouts_def install_paru_def

lemmas sample_defs = quiet_library_def failed_shell_library_def interrupted_library_def
  exited_library_def failing_library_def sample_config_def sample_state_def other_state_def
  no_bootloader_state_def htop_state_def

lemma ask_user_questions_quiet:
  "fst (ask_user_questions quiet_library sample_state) = Inr ()"
  by (simp add: script_defs sample_defs)

subsection \<open>The thirteen entries and the five others\<close>

lemma entries_sets:
  "set [''archinstall-language'', ''mirror_config'', ''locale_config'', ''disk_config'',
       ''disk_encryption'', ''bootloader'', ''hostname'', ''!root-password'', ''!users'',
       ''packages'', ''parallel downloads'', ''timezone'', ''ntp'',
       ''additional-repositories'', ''__separator__'', ''install'', ''save_config'', ''abort'']
   = set spec_menu_entries \<union>
      {''archinstall-language'', ''__separator__'', ''install'', ''save_config'', ''abort''}"
  (is "?L = ?R")
proof (rule subset_antisym)
  show "?L \<subseteq> ?R" by (simp add: spec_menu_entries_def)
  show "?R \<subseteq> ?L" by (simp add: spec_menu_entries_def)
qed

text \<open>
  C1, as stated: \<^verbatim>\<open>ask_user_questions\<close> enables the thirteen configuration entries of
  the specification and no other entry. The run below enables the language entry, the
  separator and the three action entries as well: \<^verbatim>\<open>abort\<close> is enabled and is none of
  the thirteen.
\<close>

theorem ask_user_questions_entries_counterexample:
  "set (enabled_entries (trace (snd (ask_user_questions quiet_library sample_state))))
     \<noteq> set spec_menu_entries"
proof -
  have eq: "enabled_entries (trace (snd (ask_user_questions quiet_library sample_state))) =
      [''archinstall-language'', ''mirror_config'', ''locale_config'', ''disk_config'',
       ''disk_encryption'', ''bootloader'', ''hostname'', ''!root-password'', ''!users'',
       ''packages'', ''parallel downloads'', ''timezone'', ''ntp'',
       ''additional-repositories'', ''__separator__'', ''install'', ''save_config'', ''abort'']"
    using yields_collect [OF yields_ask_user_questions ask_user_questions_quiet]
    by (simp add: enabled_entries_def sample_state_def)
  have "''abort'' \<in> set (enabled_entries (trace (snd (ask_user_questions quiet_library sample_state))))"
    unfolding eq by simp
  moreover have "''abort'' \<notin> set spec_menu_entries"
    by (simp add: spec_menu_entries_def)
  ultimately show ?thesis by metis
qed

text \<open>
  C1, amended: when \<^verbatim>\<open>ask_user_questions\<close> returns, it has enabled, in this order, the
  language entry, the thirteen configuration entries of the specification, the separator
  and the entries \<^verbatim>\<open>install\<close>, \<^verbatim>\<open>save_config\<close> and \<^verbatim>\<open>abort\<close>, and no other entry.
\<close>

theorem ask_user_questions_entries:
  assumes "fst (ask_user_questions env s) = Inr ()"
  shows "enabled_entries (trace (snd (ask_user_questions env s))) =
      enabled_entries (trace s) @
      [''archinstall-language'', ''mirror_config'', ''locale_config'', ''disk_config'',
       ''disk_encryption'', ''bootloader'', ''hostname'', ''!root-password'', ''!users'',
       ''packages'', ''parallel downloads'', ''timezone'', ''ntp'',
       ''additional-repositories'', ''__separator__'', ''install'', ''save_config'', ''abort'']
    \<and> set (enabled_entries (trace (snd (ask_user_questions env s)))) =
      set (enabled_entries (trace s)) \<union> (set spec_menu_entries \<union>
      {''archinstall-language'', ''__separator__'', ''install'', ''save_config'', ''abort''})"
proof -
  have eq: "enabled_entries (trace (snd (ask_user_questions env s))) =
      enabled_entries (trace s) @
      [''archinstall-language'', ''mirror_config'', ''locale_config'', ''disk_config'',
       ''disk_encryption'', ''bootloader'', ''hostname'', ''!root-password'', ''!users'',
       ''packages'', ''parallel downloads'', ''timezone'', ''ntp'',
       ''additional-repositories'', ''__separator__'', ''install'', ''save_config'', ''abort'']"
    using yields_collect [OF yields_ask_user_questions assms]
    by (simp add: enabled_entries_def)
  show ?thesis
    unfolding eq set_append entries_sets by simp
qed

text \<open>The amended C1 on a run in which no call raises.\<close>

theorem ask_user_questions_entries_witness:
  "enabled_entries (trace (snd (ask_user_questions quiet_library sample_state))) =
      [''archinstall-language'', ''mirror_config'', ''locale_config'', ''disk_config'',
       ''disk_encryption'', ''bootloader'', ''hostname'', ''!root-password'', ''!users'',
       ''packages'', ''parallel downloads'', ''timezone'', ''ntp'',
       ''additional-repositories'', ''__separator__'', ''install'', ''save_config'', ''abort'']"
  using ask_user_questions_entries [OF ask_user_questions_quiet]
  by (simp add: enabled_entries_def sample_state_def)

section \<open>Failures of the library\<close>

lemma raised_simps [simp]: "raised (Inl e) = Some e" "raised (Inr x) = None"
  by (simp_all add: raised_def)

lemma stops_append:
  "stops_at_failure None xs \<Longrightarrow> stops_at_failure r ys \<Longrightarrow> stops_at_failure r (xs @ ys)"
proof (induction xs)
  case Nil
  then show ?case by simp
next
  case (Cons ev xs)
  obtain c out where ev: "ev = (c, out)" by (cases ev)
  show ?case
    using Cons by (cases out) (auto simp: ev split: if_splits)
qed

lemma propagated_append:
  "propagated None xs \<Longrightarrow> propagated r ys \<Longrightarrow> propagated r (xs @ ys)"
proof (induction xs)
  case Nil
  then show ?case by simp
next
  case (Cons ev xs)
  obtain c out where ev: "ev = (c, out)" by (cases ev)
  show ?case
    using Cons by (cases out) (auto simp: ev split: if_splits)
qed

lemma stops_propagated: "stops_at_failure r xs \<Longrightarrow> propagated r xs"
proof (induction xs)
  case Nil
  then show ?case by simp
next
  case (Cons ev xs)
  obtain c out where ev: "ev = (c, out)" by (cases ev)
  show ?case
    using Cons by (cases out) (auto simp: ev split: if_splits)
qed

text \<open>The exception of the body goes to \<^verbatim>\<open>Installer.__exit__\<close>, and then on.\<close>

lemma stops_then_exit:
  assumes "stops_at_failure (Some e) xs" and "out = None \<or> out = Some e"
  shows "propagated (Some e) (xs @ [(Installer_exit (Some e), out)])"
  using assms(1)
proof (induction xs)
  case Nil
  with assms(2) show ?case by auto
next
  case (Cons ev xs)
  obtain c out' where ev: "ev = (c, out')" by (cases ev)
  show ?case
    using Cons assms(2) by (cases out') (auto simp: ev split: if_splits)
qed

subsection \<open>Statements that stop at the first failure\<close>

lemma fails_fastI:
  assumes "\<And>s. \<exists>evs. trace (snd (m s)) = trace s @ evs \<and>
     stops_at_failure (raised (fst (m s))) evs"
  shows "fails_fast m"
  using assms by (simp add: fails_fast_def)

lemma fails_fastE:
  assumes "fails_fast m"
  obtains evs where "trace (snd (m s)) = trace s @ evs"
    and "stops_at_failure (raised (fst (m s))) evs"
  using assms unfolding fails_fast_def by blast

lemma fails_fast_ret: "fails_fast (ret x)"
  by (rule fails_fastI) (simp add: ret_def)

lemma fails_fast_raise: "fails_fast (raise e)"
  by (rule fails_fastI) (simp add: raise_def)

lemma fails_fast_bind:
  assumes m: "fails_fast m" and k: "\<And>x. fails_fast (k x)"
  shows "fails_fast (bind_script m k)"
proof (rule fails_fastI)
  fix s
  from m obtain evs1 where 1: "trace (snd (m s)) = trace s @ evs1"
    and st1: "stops_at_failure (raised (fst (m s))) evs1"
    by (rule fails_fastE [where s = s])
  show "\<exists>evs. trace (snd (bind_script m k s)) = trace s @ evs \<and>
     stops_at_failure (raised (fst (bind_script m k s))) evs"
  proof (cases "m s")
    case (Pair r s1)
    show ?thesis
    proof (cases r)
      case (Inl e)
      with Pair 1 st1 show ?thesis by (simp add: bind_script_def)
    next
      case (Inr x)
      from k [of x] obtain evs2 where 2: "trace (snd (k x s1)) = trace s1 @ evs2"
        and st2: "stops_at_failure (raised (fst (k x s1))) evs2"
        by (rule fails_fastE [where s = s1])
      from st1 Pair Inr have "stops_at_failure None evs1" by simp
      then have "stops_at_failure (raised (fst (k x s1))) (evs1 @ evs2)"
        using st2 by (rule stops_append)
      moreover have "trace (snd (k x s1)) = trace s @ (evs1 @ evs2)"
        using 1 2 Pair by simp
      ultimately show ?thesis
        using Pair Inr by (auto simp: bind_script_def)
    qed
  qed
qed

lemma fails_fast_seq_Nil: "fails_fast (seq [])"
  by (simp add: fails_fast_ret)

lemma fails_fast_seq_Cons: "fails_fast p \<Longrightarrow> fails_fast (seq ps) \<Longrightarrow> fails_fast (seq (p # ps))"
  by (simp add: fails_fast_bind)

lemma fails_fast_lib: "fails_fast (lib env c)"
proof (rule fails_fastI)
  fix s
  show "\<exists>evs. trace (snd (lib env c s)) = trace s @ evs \<and>
     stops_at_failure (raised (fst (lib env c s))) evs"
    by (cases "raises env (trace s) c") (simp_all add: lib_def)
qed

text \<open>The one place where an exception is caught: \<^verbatim>\<open>drop_to_shell\<close>.\<close>

lemma fails_fast_try_shell: "fails_fast (try_except_Exception (lib env Drop_to_shell))"
proof (rule fails_fastI)
  fix s
  show "\<exists>evs. trace (snd (try_except_Exception (lib env Drop_to_shell) s)) = trace s @ evs \<and>
     stops_at_failure (raised (fst (try_except_Exception (lib env Drop_to_shell) s))) evs"
    by (cases "raises env (trace s) Drop_to_shell")
      (simp_all add: try_except_Exception_def lib_def)
qed

lemma fails_fast_GlobalMenu_run_store: "fails_fast (GlobalMenu_run_store env)"
proof (rule fails_fastI)
  fix s
  show "\<exists>evs. trace (snd (GlobalMenu_run_store env s)) = trace s @ evs \<and>
     stops_at_failure (raised (fst (GlobalMenu_run_store env s))) evs"
    by (cases "raises env (trace s) GlobalMenu_run")
      (simp_all add: GlobalMenu_run_store_def bind_script_def lib_def)
qed

lemma fails_fast_queries:
  "fails_fast (SysInfo_has_uefi env)"
  "fails_fast (archinstall_accessibility_tools_in_use env)"
  "fails_fast (translate env msg)"
  "fails_fast (Menu_yes_no_options env)"
  "fails_fast (Menu_yes_option env)"
  "fails_fast (Menu_run_value env)"
  "fails_fast (disk_disk_layouts env)"
  unfolding SysInfo_has_uefi_def archinstall_accessibility_tools_in_use_def translate_def
    Menu_yes_no_options_def Menu_yes_option_def Menu_run_value_def disk_disk_layouts_def
  by (intro fails_fast_bind fails_fast_lib fails_fast_ret)+

lemma fails_fast_arguments:
  "fails_fast (arguments_item field key)"
  "fails_fast (arguments_get field)"
  "fails_fast (arguments_get_default field d)"
  "fails_fast (storage_get_MOUNT_POINT env)"
  by (rule fails_fastI,
      simp add: arguments_item_def arguments_get_def arguments_get_default_def
        storage_get_MOUNT_POINT_def ret_def split: option.splits)+

lemma fails_fast_subscript0: "fails_fast (subscript0 xs)"
  by (simp add: subscript0_def fails_fast_ret fails_fast_raise split: option.splits list.splits)

lemma fails_fast_getattr: "fails_fast (getattr obj attr attr_name)"
  by (simp add: getattr_def fails_fast_ret fails_fast_raise split: option.splits)

lemma fails_fast_is_in: "fails_fast (is_in x xs)"
  by (simp add: is_in_def fails_fast_ret fails_fast_raise split: option.splits)

lemma fails_fast_user_packages_given: "fails_fast user_packages_given"
  unfolding user_packages_given_def
  by (intro fails_fast_bind fails_fast_arguments)
    (simp add: fails_fast_ret fails_fast_bind fails_fast_arguments fails_fast_subscript0
      split: option.splits list.splits)

lemma fails_fast_when_s: "fails_fast p \<Longrightarrow> fails_fast (when_s b p)"
  by (simp add: when_s_def fails_fast_ret)

lemma fails_fast_if: "fails_fast p \<Longrightarrow> fails_fast q \<Longrightarrow> fails_fast (if b then p else q)"
  by simp

lemma fails_fast_when_some: "(\<And>v. fails_fast (body v)) \<Longrightarrow> fails_fast (when_some x body)"
  by (simp add: when_some_def fails_fast_ret split: option.splits)

lemma fails_fast_when_nonempty:
  "(\<And>v. fails_fast (body v)) \<Longrightarrow> fails_fast (when_nonempty x body)"
  by (simp add: when_nonempty_def fails_fast_ret split: option.splits list.splits)

lemma fails_fast_for_each: "(\<And>v. fails_fast (body v)) \<Longrightarrow> fails_fast (for_each xs body)"
  by (induction xs) (simp_all add: fails_fast_ret fails_fast_bind)

lemma fails_fast_for_in: "(\<And>v. fails_fast (body v)) \<Longrightarrow> fails_fast (for_in xs body)"
  by (simp add: for_in_def fails_fast_raise fails_fast_for_each split: option.splits)

lemmas fails_fast_intros =
  fails_fast_bind fails_fast_seq_Cons fails_fast_seq_Nil fails_fast_try_shell fails_fast_lib
  fails_fast_GlobalMenu_run_store fails_fast_queries fails_fast_arguments
  fails_fast_user_packages_given fails_fast_when_s fails_fast_if fails_fast_when_some
  fails_fast_when_nonempty fails_fast_for_each fails_fast_for_in fails_fast_getattr
  fails_fast_is_in fails_fast_ret

lemma fails_fast_ask_user_questions: "fails_fast (ask_user_questions env)"
  unfolding ask_user_questions_def by (rule fails_fast_intros)+

subsection \<open>The \<^verbatim>\<open>with\<close> statement\<close>

lemma propagatesI:
  assumes "\<And>s. \<exists>evs. trace (snd (m s)) = trace s @ evs \<and> propagated (raised (fst (m s))) evs"
  shows "propagates m"
  using assms by (simp add: propagates_def)

lemma propagatesE:
  assumes "propagates m"
  obtains evs where "trace (snd (m s)) = trace s @ evs"
    and "propagated (raised (fst (m s))) evs"
  using assms unfolding propagates_def by blast

lemma propagates_fails_fast:
  assumes "fails_fast m"
  shows "propagates m"
proof (rule propagatesI)
  fix s
  from assms obtain evs where "trace (snd (m s)) = trace s @ evs"
    and "stops_at_failure (raised (fst (m s))) evs"
    by (rule fails_fastE [where s = s])
  then show "\<exists>evs. trace (snd (m s)) = trace s @ evs \<and> propagated (raised (fst (m s))) evs"
    by (blast intro: stops_propagated)
qed

lemma propagates_bind:
  assumes m: "propagates m" and k: "\<And>x. propagates (k x)"
  shows "propagates (bind_script m k)"
proof (rule propagatesI)
  fix s
  from m obtain evs1 where 1: "trace (snd (m s)) = trace s @ evs1"
    and st1: "propagated (raised (fst (m s))) evs1"
    by (rule propagatesE [where s = s])
  show "\<exists>evs. trace (snd (bind_script m k s)) = trace s @ evs \<and>
     propagated (raised (fst (bind_script m k s))) evs"
  proof (cases "m s")
    case (Pair r s1)
    show ?thesis
    proof (cases r)
      case (Inl e)
      with Pair 1 st1 show ?thesis by (simp add: bind_script_def)
    next
      case (Inr x)
      from k [of x] obtain evs2 where 2: "trace (snd (k x s1)) = trace s1 @ evs2"
        and st2: "propagated (raised (fst (k x s1))) evs2"
        by (rule propagatesE [where s = s1])
      from st1 Pair Inr have "propagated None evs1" by simp
      then have "propagated (raised (fst (k x s1))) (evs1 @ evs2)"
        using st2 by (rule propagated_append)
      moreover have "trace (snd (k x s1)) = trace s @ (evs1 @ evs2)"
        using 1 2 Pair by simp
      ultimately show ?thesis
        using Pair Inr by (auto simp: bind_script_def)
    qed
  qed
qed

lemma propagates_with_Installer:
  assumes nosup: "\<forall>e. \<not> exit_suppresses env e"
    and same: "\<forall>h e. raises env h (Installer_exit (Some e)) = None
        \<or> raises env h (Installer_exit (Some e)) = Some e"
    and body: "fails_fast body"
  shows "propagates (with_Installer env ctor body)"
proof -
  have "propagates (\<lambda>s. case body s of
          (Inr _, s1) \<Rightarrow> lib env (Installer_exit None) s1
        | (Inl e, s1) \<Rightarrow>
            (case lib env (Installer_exit (Some e)) s1 of
               (Inl e', s2) \<Rightarrow> (Inl e', s2)
             | (Inr _, s2) \<Rightarrow> if exit_suppresses env e then (Inr (), s2) else (Inl e, s2)))"
    (is "propagates ?W")
  proof (rule propagatesI)
    fix s
    from body obtain evs where b: "trace (snd (body s)) = trace s @ evs"
      and st: "stops_at_failure (raised (fst (body s))) evs"
      by (rule fails_fastE [where s = s])
    obtain res s1 where bs: "body s = (res, s1)"
      by (cases "body s")
    show "\<exists>evs. trace (snd (?W s)) = trace s @ evs \<and> propagated (raised (fst (?W s))) evs"
    proof (cases res)
      case (Inr u)
      define out where "out = raises env (trace s1) (Installer_exit None)"
      have t: "trace (snd (?W s)) = trace s @ (evs @ [(Installer_exit None, out)])"
        and r: "raised (fst (?W s)) = out"
        using bs Inr b by (auto simp: lib_def out_def split: option.splits)
      from st bs Inr have "propagated None evs"
        by (simp add: stops_propagated)
      moreover have "propagated out [(Installer_exit None, out)]"
        by (cases out) simp_all
      ultimately have "propagated out (evs @ [(Installer_exit None, out)])"
        by (rule propagated_append)
      with t r show ?thesis by auto
    next
      case (Inl e)
      define out where "out = raises env (trace s1) (Installer_exit (Some e))"
      from same have out: "out = None \<or> out = Some e"
        by (simp add: out_def)
      have t: "trace (snd (?W s)) = trace s @ (evs @ [(Installer_exit (Some e), out)])"
        using bs Inl b by (auto simp: lib_def out_def split: option.splits)
      have r: "raised (fst (?W s)) = Some e"
        using bs Inl out nosup by (auto simp: lib_def out_def split: option.splits)
      from st bs Inl have "stops_at_failure (Some e) evs" by simp
      then have "propagated (Some e) (evs @ [(Installer_exit (Some e), out)])"
        using out by (rule stops_then_exit)
      with t r show ?thesis by auto
    qed
  qed
  then show ?thesis
    unfolding with_Installer_def
    by (intro propagates_bind propagates_fails_fast [OF fails_fast_lib])
qed

lemma propagates_perform_installation:
  assumes nosup: "\<forall>e. \<not> exit_suppresses env e"
    and same: "\<forall>h e. raises env h (Installer_exit (Some e)) = None
        \<or> raises env h (Installer_exit (Some e)) = Some e"
  shows "propagates (perform_installation env mountpoint)"
  unfolding perform_installation_def
  by (rule propagates_bind propagates_with_Installer [OF nosup same] propagates_fails_fast
      fails_fast_intros)+

lemma propagates_main:
  assumes nosup: "\<forall>e. \<not> exit_suppresses env e"
    and same: "\<forall>h e. raises env h (Installer_exit (Some e)) = None
        \<or> raises env h (Installer_exit (Some e)) = Some e"
  shows "propagates (main env)"
  unfolding main_def
  by (rule propagates_bind propagates_perform_installation [OF nosup same]
      propagates_fails_fast fails_fast_ask_user_questions fails_fast_intros)+

text \<open>
  C5: take a library whose \<^verbatim>\<open>Installer.__exit__\<close> hands an exception on (it returns no
  true value, and raises nothing but the exception it is given). Then in every run of
  \<^verbatim>\<open>perform_installation\<close>, and of the whole script, a library call that raises, other
  than \<^verbatim>\<open>drop_to_shell\<close>, is the last call but for the \<^verbatim>\<open>__exit__\<close> of the
  \<^verbatim>\<open>with\<close> statement, which receives its exception; and its exception is the outcome
  of the run.
\<close>

theorem library_failures_propagate:
  assumes "\<forall>e. \<not> exit_suppresses env e"
    and "\<forall>h e. raises env h (Installer_exit (Some e)) = None
        \<or> raises env h (Installer_exit (Some e)) = Some e"
  shows "(\<exists>evs. trace (snd (perform_installation env mountpoint s)) = trace s @ evs \<and>
            propagated (raised (fst (perform_installation env mountpoint s))) evs) \<and>
         (\<exists>evs. trace (snd (main env s)) = trace s @ evs \<and>
            propagated (raised (fst (main env s))) evs)"
proof
  show "\<exists>evs. trace (snd (perform_installation env mountpoint s)) = trace s @ evs \<and>
            propagated (raised (fst (perform_installation env mountpoint s))) evs"
    using propagates_perform_installation [OF assms] by (simp add: propagates_def)
  show "\<exists>evs. trace (snd (main env s)) = trace s @ evs \<and>
            propagated (raised (fst (main env s))) evs"
    using propagates_main [OF assms] by (simp add: propagates_def)
qed

lemma perform_installation_failing:
  "perform_installation failing_library ''/mnt'' sample_state =
     (Inl (Exception ''no network''),
      \<lparr>arguments = sample_config,
       trace = [(Info ''Starting installation'', None),
         (Installer_init ''/mnt'' (Some \<lparr>config_type = Default\<rparr>) None
            (Some [''linux-hardened'']), None),
         (Installer_enter, None),
         (Mount_ordered_layout, None),
         (Sanity_check, Some (Exception ''no network'')),
         (Installer_exit (Some (Exception ''no network'')), Some (Exception ''no network''))]\<rparr>)"
  by (simp add: script_defs sample_defs)

text \<open>
  C5 on a run in which \<^verbatim>\<open>sanity_check\<close> raises: the exception is the outcome, and after
  \<^verbatim>\<open>sanity_check\<close> only \<^verbatim>\<open>Installer.__exit__\<close> is called.
\<close>

theorem library_failures_propagate_witness:
  "propagated (Some (Exception ''no network''))
     [(Info ''Starting installation'', None),
      (Installer_init ''/mnt'' (Some \<lparr>config_type = Default\<rparr>) None
         (Some [''linux-hardened'']), None),
      (Installer_enter, None),
      (Mount_ordered_layout, None),
      (Sanity_check, Some (Exception ''no network'')),
      (Installer_exit (Some (Exception ''no network'')), Some (Exception ''no network''))]"
proof -
  have "\<forall>e. \<not> exit_suppresses failing_library e"
    by (simp add: sample_defs)
  moreover have "\<forall>h e. raises failing_library h (Installer_exit (Some e)) = None
        \<or> raises failing_library h (Installer_exit (Some e)) = Some e"
    by (simp add: sample_defs)
  ultimately show ?thesis
    using library_failures_propagate [of failing_library "''/mnt''" sample_state]
    by (simp add: perform_installation_failing sample_state_def)
qed

section \<open>The configuration is only read\<close>

lemma preservesI: "(\<And>s. arguments (snd (m s)) = arguments s) \<Longrightarrow> preserves m"
  by (simp add: preserves_def)

lemma preservesD: "preserves m \<Longrightarrow> arguments (snd (m s)) = arguments s"
  by (simp add: preserves_def)

lemma preserves_ret: "preserves (ret x)"
  by (simp add: preserves_def ret_def)

lemma preserves_raise: "preserves (raise e)"
  by (simp add: preserves_def raise_def)

lemma preserves_bind:
  assumes m: "preserves m" and k: "\<And>x. preserves (k x)"
  shows "preserves (bind_script m k)"
proof (rule preservesI)
  fix s
  show "arguments (snd (bind_script m k s)) = arguments s"
  proof (cases "m s")
    case (Pair r s1)
    have s1: "arguments s1 = arguments s"
      using preservesD [OF m, of s] Pair by simp
    show ?thesis
    proof (cases r)
      case (Inl e)
      with Pair s1 show ?thesis by (simp add: bind_script_def)
    next
      case (Inr x)
      with Pair s1 preservesD [OF k, of x s1] show ?thesis by (simp add: bind_script_def)
    qed
  qed
qed

lemma preserves_seq_Nil: "preserves (seq [])"
  by (simp add: preserves_ret)

lemma preserves_seq_Cons: "preserves p \<Longrightarrow> preserves (seq ps) \<Longrightarrow> preserves (seq (p # ps))"
  by (simp add: preserves_bind)

lemma preserves_lib: "preserves (lib env c)"
  by (simp add: preserves_def lib_def split: option.splits)

lemma preserves_queries:
  "preserves (SysInfo_has_uefi env)"
  "preserves (archinstall_accessibility_tools_in_use env)"
  "preserves (translate env msg)"
  "preserves (Menu_yes_no_options env)"
  "preserves (Menu_yes_option env)"
  "preserves (Menu_run_value env)"
  "preserves (disk_disk_layouts env)"
  "preserves (storage_get_MOUNT_POINT env)"
  unfolding SysInfo_has_uefi_def archinstall_accessibility_tools_in_use_def translate_def
    Menu_yes_no_options_def Menu_yes_option_def Menu_run_value_def disk_disk_layouts_def
    storage_get_MOUNT_POINT_def
  by (intro preserves_bind preserves_lib preserves_ret)+

lemma preserves_arguments:
  "preserves (arguments_item field key)"
  "preserves (arguments_get field)"
  "preserves (arguments_get_default field d)"
  by (simp_all add: preserves_def arguments_item_def arguments_get_def
      arguments_get_default_def split: option.splits)

lemma preserves_subscript0: "preserves (subscript0 xs)"
  by (simp add: subscript0_def preserves_ret preserves_raise split: option.splits list.splits)

lemma preserves_getattr: "preserves (getattr obj attr attr_name)"
  by (simp add: getattr_def preserves_ret preserves_raise split: option.splits)

lemma preserves_is_in: "preserves (is_in x xs)"
  by (simp add: is_in_def preserves_ret preserves_raise split: option.splits)

lemma preserves_user_packages_given: "preserves user_packages_given"
  unfolding user_packages_given_def
  by (intro preserves_bind preserves_arguments)
    (simp add: preserves_ret preserves_bind preserves_arguments preserves_subscript0
      split: option.splits list.splits)

lemma preserves_when_s: "preserves p \<Longrightarrow> preserves (when_s b p)"
  by (simp add: when_s_def preserves_ret)

lemma preserves_if: "preserves p \<Longrightarrow> preserves q \<Longrightarrow> preserves (if b then p else q)"
  by simp

lemma preserves_when_some: "(\<And>v. preserves (body v)) \<Longrightarrow> preserves (when_some x body)"
  by (simp add: when_some_def preserves_ret split: option.splits)

lemma preserves_when_nonempty:
  "(\<And>v. preserves (body v)) \<Longrightarrow> preserves (when_nonempty x body)"
  by (simp add: when_nonempty_def preserves_ret split: option.splits list.splits)

lemma preserves_for_each: "(\<And>v. preserves (body v)) \<Longrightarrow> preserves (for_each xs body)"
  by (induction xs) (simp_all add: preserves_ret preserves_bind)

lemma preserves_for_in: "(\<And>v. preserves (body v)) \<Longrightarrow> preserves (for_in xs body)"
  by (simp add: for_in_def preserves_raise preserves_for_each split: option.splits)

lemma preserves_try:
  assumes "preserves p"
  shows "preserves (try_except_Exception p)"
proof (rule preservesI)
  fix s
  show "arguments (snd (try_except_Exception p s)) = arguments s"
    using preservesD [OF assms, of s]
    by (cases "p s") (auto simp: try_except_Exception_def split: sum.splits)
qed

lemma preserves_with_Installer:
  assumes "preserves body"
  shows "preserves (with_Installer env ctor body)"
proof -
  have "preserves (\<lambda>s. case body s of
          (Inr _, s1) \<Rightarrow> lib env (Installer_exit None) s1
        | (Inl e, s1) \<Rightarrow>
            (case lib env (Installer_exit (Some e)) s1 of
               (Inl e', s2) \<Rightarrow> (Inl e', s2)
             | (Inr _, s2) \<Rightarrow> if exit_suppresses env e then (Inr (), s2) else (Inl e, s2)))"
  proof (rule preservesI)
    fix s
    show "arguments (snd (case body s of
          (Inr _, s1) \<Rightarrow> lib env (Installer_exit None) s1
        | (Inl e, s1) \<Rightarrow>
            (case lib env (Installer_exit (Some e)) s1 of
               (Inl e', s2) \<Rightarrow> (Inl e', s2)
             | (Inr _, s2) \<Rightarrow> if exit_suppresses env e then (Inr (), s2) else (Inl e, s2))))
        = arguments s"
      using preservesD [OF assms, of s]
      by (cases "body s") (auto simp: lib_def split: sum.splits option.splits)
  qed
  then show ?thesis
    unfolding with_Installer_def by (intro preserves_bind preserves_lib)
qed

lemmas preserves_intros =
  preserves_bind preserves_seq_Cons preserves_seq_Nil preserves_lib preserves_queries
  preserves_arguments preserves_user_packages_given preserves_when_s preserves_if
  preserves_when_some preserves_when_nonempty preserves_for_each preserves_for_in
  preserves_getattr preserves_is_in preserves_try preserves_with_Installer preserves_ret

lemma preserves_perform_installation: "preserves (perform_installation env mountpoint)"
  unfolding perform_installation_def by (rule preserves_intros)+

text \<open>
  C7: \<^verbatim>\<open>perform_installation\<close> leaves \<^verbatim>\<open>archinstall.arguments\<close> as it finds it,
  however it ends; and after the whole script, the configuration is the one that
  \<^verbatim>\<open>ask_user_questions\<close> has left.
\<close>

theorem perform_installation_reads_only:
  "arguments (snd (perform_installation env mountpoint s)) = arguments s \<and>
   arguments (snd (main env s)) = arguments (snd (ask_user_questions env s))"
proof
  show "arguments (snd (perform_installation env mountpoint s)) = arguments s"
    by (rule preservesD [OF preserves_perform_installation])
next
  have rest: "preserves
     (bind_script (arguments_item disk_config ''disk_config'') (\<lambda>disk_cfg.
      bind_script (arguments_get disk_encryption) (\<lambda>disk_enc.
      bind_script (lib env (FilesystemHandler_init disk_cfg disk_enc)) (\<lambda>_.
      bind_script (lib env Perform_filesystem_operations) (\<lambda>_.
      bind_script (storage_get_MOUNT_POINT env) (\<lambda>mount_point.
        perform_installation env mount_point))))))"
    by (rule preserves_intros preserves_perform_installation)+
  show "arguments (snd (main env s)) = arguments (snd (ask_user_questions env s))"
  proof (cases "ask_user_questions env s")
    case (Pair r s1)
    then show ?thesis
      using preservesD [OF rest, of s1]
      by (cases r) (simp_all add: main_def bind_script_def)
  qed
qed

text \<open>C7 on the sample configuration.\<close>

theorem perform_installation_reads_only_witness:
  "arguments (snd (perform_installation quiet_library ''/mnt'' sample_state)) = sample_config"
  using perform_installation_reads_only [of quiet_library "''/mnt''" sample_state]
  by (simp add: sample_state_def)

section \<open>The order of the phases\<close>

lemma run_append:
  "run st (xs @ ys) = (case run st xs of None \<Rightarrow> None | Some st1 \<Rightarrow> run st1 ys)"
  by (induction xs arbitrary: st) (simp_all split: option.splits)

lemma step_Install: "phase_of c = Install \<Longrightarrow> step Disks_ready (c, out) = Some Disks_ready"
  by (simp add: step_def)

text \<open>
  Traces that the stages reject: a call of a later phase before the earlier phase has
  returned.
\<close>

lemma run_rejects_early_calls:
  "run Asking [(Sanity_check, None)] = None"
  "run Asking [(Perform_filesystem_operations, None)] = None"
  "run Asking [(GlobalMenu_run, Some SystemExit), (Perform_filesystem_operations, None)] = None"
  "run Asking [(GlobalMenu_run, None), (Sanity_check, None)] = None"
  "run Asking [(GlobalMenu_run, None), (Perform_filesystem_operations, Some TypeError),
     (Sanity_check, None)] = None"
  by (simp_all add: step_def phase_of_def)

lemma advancesI:
  assumes "\<And>s. \<exists>evs. trace (snd (m s)) = trace s @ evs \<and>
     (case fst (m s) of Inr _ \<Rightarrow> run st evs = Some st' | Inl _ \<Rightarrow> run st evs \<noteq> None)"
  shows "advances st m st'"
  using assms by (simp add: advances_def)

lemma advancesE:
  assumes "advances st m st'"
  obtains evs where "trace (snd (m s)) = trace s @ evs"
    and "\<forall>x. fst (m s) = Inr x \<longrightarrow> run st evs = Some st'"
    and "run st evs \<noteq> None"
proof -
  from assms obtain evs where t: "trace (snd (m s)) = trace s @ evs"
    and c: "case fst (m s) of Inr _ \<Rightarrow> run st evs = Some st' | Inl _ \<Rightarrow> run st evs \<noteq> None"
    unfolding advances_def by blast
  from c have "\<forall>x. fst (m s) = Inr x \<longrightarrow> run st evs = Some st'" and "run st evs \<noteq> None"
    by (auto split: sum.splits)
  with t show thesis by (rule that)
qed

lemma advances_ret: "advances st (ret x) st"
  by (rule advancesI) (simp add: ret_def)

lemma advances_raise: "advances st (raise e) st'"
  by (rule advancesI) (simp add: raise_def)

lemma advances_bind:
  assumes m: "advances st m st1" and k: "\<And>x. advances st1 (k x) st2"
  shows "advances st (bind_script m k) st2"
proof (rule advancesI)
  fix s
  from m obtain evs1 where 1: "trace (snd (m s)) = trace s @ evs1"
    and ok1: "\<forall>x. fst (m s) = Inr x \<longrightarrow> run st evs1 = Some st1"
    and any1: "run st evs1 \<noteq> None"
    by (rule advancesE [where s = s])
  show "\<exists>evs. trace (snd (bind_script m k s)) = trace s @ evs \<and>
     (case fst (bind_script m k s) of Inr _ \<Rightarrow> run st evs = Some st2
      | Inl _ \<Rightarrow> run st evs \<noteq> None)"
  proof (cases "m s")
    case (Pair r s1)
    show ?thesis
    proof (cases r)
      case (Inl e)
      with Pair 1 any1 show ?thesis by (simp add: bind_script_def)
    next
      case (Inr x)
      from k [of x] obtain evs2 where 2: "trace (snd (k x s1)) = trace s1 @ evs2"
        and ok2: "\<forall>y. fst (k x s1) = Inr y \<longrightarrow> run st1 evs2 = Some st2"
        and any2: "run st1 evs2 \<noteq> None"
        by (rule advancesE [where s = s1])
      from ok1 Pair Inr have r1: "run st evs1 = Some st1" by simp
      have "trace (snd (k x s1)) = trace s @ (evs1 @ evs2)"
        using 1 2 Pair by simp
      moreover have "case fst (k x s1) of Inr _ \<Rightarrow> run st (evs1 @ evs2) = Some st2
          | Inl _ \<Rightarrow> run st (evs1 @ evs2) \<noteq> None"
        using ok2 any2 r1 by (simp add: run_append split: sum.splits)
      ultimately show ?thesis
        using Pair Inr by (auto simp: bind_script_def)
    qed
  qed
qed

lemma advances_seq_Nil: "advances st (seq []) st"
  by (simp add: advances_ret)

lemma advances_seq_Cons:
  "advances st p st1 \<Longrightarrow> advances st1 (seq ps) st2 \<Longrightarrow> advances st (seq (p # ps)) st2"
  by (simp add: advances_bind)

lemma advances_lib:
  assumes "step st (c, None) = Some st'" and "\<And>e. step st (c, Some e) \<noteq> None"
  shows "advances st (lib env c) st'"
proof (rule advancesI)
  fix s
  show "\<exists>evs. trace (snd (lib env c s)) = trace s @ evs \<and>
     (case fst (lib env c s) of Inr _ \<Rightarrow> run st evs = Some st' | Inl _ \<Rightarrow> run st evs \<noteq> None)"
  proof (cases "raises env (trace s) c")
    case None
    with assms(1) show ?thesis by (simp add: lib_def)
  next
    case (Some e)
    with assms(2) [of e] show ?thesis by (auto simp: lib_def)
  qed
qed

lemma advances_lib_Install:
  "phase_of c = Install \<Longrightarrow> advances Disks_ready (lib env c) Disks_ready"
  by (rule advances_lib) (simp_all add: step_def)

lemma advances_menu:
  "advances Asking (lib env GlobalMenu_init) Asking"
  "advances Asking (lib env (GlobalMenu_enable k m)) Asking"
  by (rule advances_lib; simp add: step_def phase_of_def)+

lemma advances_GlobalMenu_run_store: "advances Asking (GlobalMenu_run_store env) Asked"
proof (rule advancesI)
  fix s
  show "\<exists>evs. trace (snd (GlobalMenu_run_store env s)) = trace s @ evs \<and>
     (case fst (GlobalMenu_run_store env s) of Inr _ \<Rightarrow> run Asking evs = Some Asked
      | Inl _ \<Rightarrow> run Asking evs \<noteq> None)"
    by (cases "raises env (trace s) GlobalMenu_run")
      (simp_all add: GlobalMenu_run_store_def bind_script_def lib_def step_def phase_of_def)
qed

lemma advances_disks:
  "advances Asked (lib env (FilesystemHandler_init dc de)) Asked"
  "advances Asked (lib env Perform_filesystem_operations) Disks_ready"
  by (rule advances_lib; simp add: step_def phase_of_def)+

lemma advances_query:
  "phase_of c = Install \<Longrightarrow>
   advances Disks_ready (bind_script (lib env c) (\<lambda>_. ret v)) Disks_ready"
  by (rule advances_bind [OF advances_lib_Install advances_ret])

lemma advances_queries:
  "advances Disks_ready (SysInfo_has_uefi env) Disks_ready"
  "advances Disks_ready (archinstall_accessibility_tools_in_use env) Disks_ready"
  "advances Disks_ready (translate env msg) Disks_ready"
  "advances Disks_ready (Menu_yes_no_options env) Disks_ready"
  "advances Disks_ready (Menu_yes_option env) Disks_ready"
  "advances Disks_ready (Menu_run_value env) Disks_ready"
  "advances Disks_ready (disk_disk_layouts env) Disks_ready"
  unfolding SysInfo_has_uefi_def archinstall_accessibility_tools_in_use_def translate_def
    Menu_yes_no_options_def Menu_yes_option_def Menu_run_value_def disk_disk_layouts_def
  by (rule advances_query, simp add: phase_of_def)+

lemma advances_arguments:
  "advances st (arguments_item field key) st"
  "advances st (arguments_get field) st"
  "advances st (arguments_get_default field d) st"
  "advances st (storage_get_MOUNT_POINT env) st"
  by (rule advancesI,
      simp add: arguments_item_def arguments_get_def arguments_get_default_def
        storage_get_MOUNT_POINT_def ret_def split: option.splits)+

lemma advances_subscript0: "advances st (subscript0 xs) st"
  by (simp add: subscript0_def advances_ret advances_raise split: option.splits list.splits)

lemma advances_getattr: "advances st (getattr obj attr attr_name) st"
  by (simp add: getattr_def advances_ret advances_raise split: option.splits)

lemma advances_is_in: "advances st (is_in x xs) st"
  by (simp add: is_in_def advances_ret advances_raise split: option.splits)

lemma advances_user_packages_given: "advances st user_packages_given st"
proof -
  have first: "advances st
      (bind_script (arguments_get packages) (\<lambda>q.
       bind_script (subscript0 q) (\<lambda>first. ret (first \<noteq> '''')))) st"
    by (rule advances_bind advances_arguments advances_subscript0 advances_ret)+
  show ?thesis
    unfolding user_packages_given_def
    by (rule advances_bind [OF advances_arguments(2)])
      (simp add: advances_ret first split: option.splits list.splits)
qed

lemma advances_when_s: "advances st p st \<Longrightarrow> advances st (when_s b p) st"
  by (simp add: when_s_def advances_ret)

lemma advances_if:
  "advances st p st' \<Longrightarrow> advances st q st' \<Longrightarrow> advances st (if b then p else q) st'"
  by simp

lemma advances_when_some:
  "(\<And>v. advances st (body v) st) \<Longrightarrow> advances st (when_some x body) st"
  by (simp add: when_some_def advances_ret split: option.splits)

lemma advances_when_nonempty:
  "(\<And>v. advances st (body v) st) \<Longrightarrow> advances st (when_nonempty x body) st"
  by (simp add: when_nonempty_def advances_ret split: option.splits list.splits)

lemma advances_for_each:
  assumes "\<And>v. advances st (body v) st"
  shows "advances st (for_each xs body) st"
proof (induction xs)
  case Nil
  show ?case by (simp add: advances_ret)
next
  case (Cons x xs)
  have "advances st (bind_script (body x) (\<lambda>_. for_each xs body)) st"
    by (rule advances_bind [OF assms Cons.IH])
  then show ?case by simp
qed

lemma advances_for_in:
  "(\<And>v. advances st (body v) st) \<Longrightarrow> advances st (for_in xs body) st"
  by (simp add: for_in_def advances_raise advances_for_each split: option.splits)

lemma advances_try_lib:
  assumes "phase_of c = Install"
  shows "advances Disks_ready (try_except_Exception (lib env c)) Disks_ready"
proof (rule advancesI)
  fix s
  show "\<exists>evs. trace (snd (try_except_Exception (lib env c) s)) = trace s @ evs \<and>
     (case fst (try_except_Exception (lib env c) s) of
        Inr _ \<Rightarrow> run Disks_ready evs = Some Disks_ready
      | Inl _ \<Rightarrow> run Disks_ready evs \<noteq> None)"
    using assms
    by (cases "raises env (trace s) c")
      (simp_all add: try_except_Exception_def lib_def step_def)
qed

text \<open>Once the disks are ready, a run of the stages that is allowed stays there.\<close>

lemma run_ready: "run Disks_ready evs \<noteq> None \<Longrightarrow> run Disks_ready evs = Some Disks_ready"
proof (induction evs)
  case Nil
  show ?case by simp
next
  case (Cons ev evs)
  then show ?case
    by (cases "phase_of (fst ev)") (simp_all add: step_def)
qed

lemma advances_ready:
  assumes "\<And>s. \<exists>evs. trace (snd (m s)) = trace s @ evs \<and> run Disks_ready evs \<noteq> None"
  shows "advances Disks_ready m Disks_ready"
proof (rule advancesI)
  fix s
  from assms obtain evs where "trace (snd (m s)) = trace s @ evs" "run Disks_ready evs \<noteq> None"
    by blast
  then show "\<exists>evs. trace (snd (m s)) = trace s @ evs \<and>
     (case fst (m s) of Inr _ \<Rightarrow> run Disks_ready evs = Some Disks_ready
      | Inl _ \<Rightarrow> run Disks_ready evs \<noteq> None)"
    using run_ready [of evs] by (auto split: sum.splits)
qed

lemma advances_with_Installer:
  assumes ctor: "phase_of ctor = Install"
    and body: "advances Disks_ready body Disks_ready"
  shows "advances Disks_ready (with_Installer env ctor body) Disks_ready"
proof -
  have exit: "phase_of (Installer_exit x) = Install" for x
    by (simp add: phase_of_def)
  have "advances Disks_ready (\<lambda>s. case body s of
          (Inr _, s1) \<Rightarrow> lib env (Installer_exit None) s1
        | (Inl e, s1) \<Rightarrow>
            (case lib env (Installer_exit (Some e)) s1 of
               (Inl e', s2) \<Rightarrow> (Inl e', s2)
             | (Inr _, s2) \<Rightarrow> if exit_suppresses env e then (Inr (), s2) else (Inl e, s2)))
        Disks_ready" (is "advances _ ?W _")
  proof (rule advances_ready)
    fix s
    from body obtain evs where b: "trace (snd (body s)) = trace s @ evs"
      and r: "run Disks_ready evs \<noteq> None"
      by (rule advancesE [where s = s])
    from r have r': "run Disks_ready evs = Some Disks_ready"
      by (rule run_ready)
    obtain res s1 where bs: "body s = (res, s1)"
      by (cases "body s")
    have "\<exists>x out. trace (snd (?W s)) = trace s1 @ [(Installer_exit x, out)]"
      using bs by (cases res) (auto simp: lib_def split: option.splits)
    then obtain x out where "trace (snd (?W s)) = trace s @ (evs @ [(Installer_exit x, out)])"
      using b bs by auto
    moreover have "run Disks_ready (evs @ [(Installer_exit x, out)]) \<noteq> None"
      by (simp add: run_append r' step_Install [OF exit])
    ultimately show "\<exists>evs. trace (snd (?W s)) = trace s @ evs \<and> run Disks_ready evs \<noteq> None"
      by blast
  qed
  moreover have "advances Disks_ready (lib env Installer_enter) Disks_ready"
    by (rule advances_lib_Install) (simp add: phase_of_def)
  ultimately show ?thesis
    unfolding with_Installer_def
    by (intro advances_bind [OF advances_lib_Install [OF ctor]]
        advances_bind [where ?st1.0 = Disks_ready])
qed

lemmas advances_intros =
  advances_bind advances_seq_Cons advances_seq_Nil advances_with_Installer
  advances_try_lib advances_lib_Install advances_menu advances_GlobalMenu_run_store
  advances_disks advances_queries advances_arguments advances_user_packages_given
  advances_when_s advances_if advances_when_some advances_when_nonempty advances_for_each
  advances_for_in advances_getattr advances_is_in advances_ret

lemma advances_ask_user_questions: "advances Asking (ask_user_questions env) Asked"
  unfolding ask_user_questions_def by (rule advances_intros)+

lemma advances_perform_installation:
  "advances Disks_ready (perform_installation env mountpoint) Disks_ready"
  unfolding perform_installation_def
  by (rule advances_intros | simp add: phase_of_def)+

lemma advances_main: "advances Asking (main env) Disks_ready"
  unfolding main_def
  by (rule advances_intros advances_ask_user_questions advances_perform_installation)+

text \<open>
  C6: in every run of the script, whatever the library does, the calls come in the order
  of the phases. The calls of \<^verbatim>\<open>ask_user_questions\<close> come first; a call that prepares
  the disks comes only after \<^verbatim>\<open>global_menu.run()\<close> has returned, and a call of
  \<^verbatim>\<open>perform_installation\<close> only after \<^verbatim>\<open>perform_filesystem_operations\<close> has
  returned.
\<close>

theorem script_phases_in_order:
  "\<exists>evs. trace (snd (main env s)) = trace s @ evs \<and> run Asking evs \<noteq> None"
proof -
  from advances_main obtain evs where "trace (snd (main env s)) = trace s @ evs"
    and "run Asking evs \<noteq> None"
    by (rule advancesE [where s = s])
  then show ?thesis by blast
qed

text \<open>C6 on the sample configuration, from an empty trace.\<close>

theorem script_phases_in_order_witness:
  "run Asking (trace (snd (main quiet_library sample_state))) \<noteq> None"
  using script_phases_in_order [of quiet_library sample_state]
  by (simp add: sample_state_def)

section \<open>Runs that get as far as a given call\<close>

subsection \<open>Statements that return\<close>

lemma runsI:
  assumes "\<And>s. arguments s = a \<Longrightarrow>
     fst (m s) = Inr x \<and> arguments (snd (m s)) = a \<and>
     (\<exists>evs. trace (snd (m s)) = trace s @ evs \<and> collect f evs = cs)"
  shows "runs a f m x cs"
  using assms unfolding runs_def by blast

lemma runsE:
  assumes "runs a f m x cs" and "arguments s = a"
  obtains s' evs where "m s = (Inr x, s')" and "arguments s' = a"
    and "trace s' = trace s @ evs" and "collect f evs = cs"
  using assms unfolding runs_def by (metis prod.collapse)

lemma runs_ret: "runs a f (ret x) x []"
  by (rule runsI) (simp add: ret_def)

lemma runs_bind:
  assumes "runs a f m x cs" and "runs a f (k x) y ds"
  shows "runs a f (bind_script m k) y (cs @ ds)"
proof (rule runsI)
  fix s :: script_state
  assume a: "arguments s = a"
  from assms(1) a obtain s1 evs1 where 1: "m s = (Inr x, s1)" "arguments s1 = a"
      "trace s1 = trace s @ evs1" "collect f evs1 = cs"
    by (rule runsE)
  from assms(2) 1(2) obtain s2 evs2 where 2: "k x s1 = (Inr y, s2)" "arguments s2 = a"
      "trace s2 = trace s1 @ evs2" "collect f evs2 = ds"
    by (rule runsE)
  from 1 2 show "fst (bind_script m k s) = Inr y \<and> arguments (snd (bind_script m k s)) = a \<and>
      (\<exists>evs. trace (snd (bind_script m k s)) = trace s @ evs \<and> collect f evs = cs @ ds)"
    by (simp add: bind_script_def)
qed

lemma runs_seq_Nil: "runs a f (seq []) () []"
  by (simp add: runs_ret)

lemma runs_seq_Cons:
  "runs a f p () cs \<Longrightarrow> runs a f (seq ps) () ds \<Longrightarrow> runs a f (seq (p # ps)) () (cs @ ds)"
  by (simp add: runs_bind)

text \<open>A library call returns when the library raises nothing for it.\<close>

lemma runs_lib:
  assumes "\<forall>h. raises env h c = None"
  shows "runs a f (lib env c) () (f c)"
  using assms by (intro runsI) (simp add: lib_def)

lemma runs_query:
  assumes "\<forall>h. raises env h c = None"
  shows "runs a f (bind_script (lib env c) (\<lambda>_. ret v)) v (f c)"
  using runs_bind [OF runs_lib [OF assms] runs_ret] by simp

lemma runs_has_uefi:
  "\<forall>h. raises env h Has_uefi = None \<Longrightarrow>
   runs a f (SysInfo_has_uefi env) (has_uefi env) (f Has_uefi)"
  unfolding SysInfo_has_uefi_def by (rule runs_query)

lemma runs_accessibility_tools_in_use:
  "\<forall>h. raises env h Accessibility_tools_in_use = None \<Longrightarrow>
   runs a f (archinstall_accessibility_tools_in_use env) (accessibility_tools_in_use env)
     (f Accessibility_tools_in_use)"
  unfolding archinstall_accessibility_tools_in_use_def by (rule runs_query)

lemma runs_translate:
  "\<forall>h. raises env h (Translate msg) = None \<Longrightarrow>
   runs a f (translate env msg) (translation env msg) (f (Translate msg))"
  unfolding translate_def by (rule runs_query)

lemma runs_Menu_yes_no:
  "\<forall>h. raises env h Menu_yes_no = None \<Longrightarrow>
   runs a f (Menu_yes_no_options env) (menu_yes_no env) (f Menu_yes_no)"
  unfolding Menu_yes_no_options_def by (rule runs_query)

lemma runs_Menu_yes:
  "\<forall>h. raises env h Menu_yes = None \<Longrightarrow>
   runs a f (Menu_yes_option env) (menu_yes env) (f Menu_yes)"
  unfolding Menu_yes_option_def by (rule runs_query)

lemma runs_Menu_run:
  "\<forall>h. raises env h Menu_run = None \<Longrightarrow>
   runs a f (Menu_run_value env) (menu_choice env) (f Menu_run)"
  unfolding Menu_run_value_def by (rule runs_query)

lemma runs_arguments_get:
  "runs a f (arguments_get field) (case field a of None \<Rightarrow> None | Some v \<Rightarrow> v) []"
  by (rule runsI) (simp add: arguments_get_def)

lemma runs_arguments_get_default:
  "runs a f (arguments_get_default field d) (case field a of None \<Rightarrow> Some d | Some v \<Rightarrow> v) []"
  by (rule runsI) (simp add: arguments_get_default_def)

text \<open>A subscript returns when the key is there.\<close>

lemma runs_arguments_item:
  assumes "field a = Some v"
  shows "runs a f (arguments_item field key) v []"
  using assms by (intro runsI) (simp add: arguments_item_def)


lemma runs_getattr:
  assumes "obj = Some v"
  shows "runs a f (getattr obj attr attr_name) (attr v) []"
  using assms by (simp add: getattr_def runs_ret)

lemma runs_is_in:
  assumes "xs = Some ys"
  shows "runs a f (is_in x xs) (x \<in> set ys) []"
  using assms by (simp add: is_in_def runs_ret)

lemma runs_user_packages_given:
  "runs a f user_packages_given
     (case packages a of Some (Some (p # ps)) \<Rightarrow> p \<noteq> [] | _ \<Rightarrow> False) []"
  by (rule runsI)
    (simp add: user_packages_given_def bind_script_def arguments_get_def subscript0_def
      ret_def split: option.splits list.splits)

lemma runs_when_s:
  "runs a f p () cs \<Longrightarrow> runs a f (when_s b p) () (if b then cs else [])"
  by (simp add: when_s_def runs_ret)

lemma runs_if:
  "runs a f p x cs \<Longrightarrow> runs a f q y ds \<Longrightarrow>
   runs a f (if b then p else q) (if b then x else y) (if b then cs else ds)"
  by simp

lemma runs_when_some:
  assumes "\<And>v. runs a f (body v) () (ds v)"
  shows "runs a f (when_some x body) () (case x of None \<Rightarrow> [] | Some v \<Rightarrow> ds v)"
  using assms by (cases x) (simp_all add: when_some_def runs_ret)

lemma runs_when_nonempty:
  assumes "\<And>v vs. x = Some (v # vs) \<Longrightarrow> runs a f (body (v # vs)) () (ds (v # vs))"
  shows "runs a f (when_nonempty x body) () 
           (case x of None \<Rightarrow> [] | Some [] \<Rightarrow> [] | Some (v # vs) \<Rightarrow> ds (v # vs))"
  using assms by (cases x) (simp_all add: when_nonempty_def runs_ret split: list.splits)

lemma runs_for_each:
  assumes "\<And>v. runs a f (body v) () (ds v)"
  shows "runs a f (for_each xs body) () (concat (map ds xs))"
proof (induction xs)
  case Nil
  show ?case by (simp add: runs_ret)
next
  case (Cons x xs)
  show ?case using runs_bind [OF assms [of x] Cons.IH] by simp
qed


lemma runs_conseq: "runs a f m x cs \<Longrightarrow> cs = ds \<Longrightarrow> runs a f m x ds"
  by simp

lemmas runs_intros =
  runs_has_uefi runs_accessibility_tools_in_use runs_translate runs_Menu_yes_no
  runs_Menu_yes runs_Menu_run runs_user_packages_given runs_seq_Cons runs_seq_Nil runs_lib
  runs_arguments_get runs_arguments_get_default runs_getattr runs_when_s runs_if
  runs_when_some runs_when_nonempty runs_for_each runs_ret runs_bind

subsection \<open>Statements that only add calls\<close>

lemma growsD: "grows m \<Longrightarrow> \<exists>evs. trace (snd (m s)) = trace s @ evs"
  by (simp add: grows_def)

lemma grows_fails_fast: "fails_fast m \<Longrightarrow> grows m"
  unfolding fails_fast_def grows_def by blast

lemma grows_bind:
  assumes m: "grows m" and k: "\<And>x. grows (k x)"
  shows "grows (bind_script m k)"
  unfolding grows_def
proof
  fix s :: script_state
  from m obtain evs1 where 1: "trace (snd (m s)) = trace s @ evs1"
    unfolding grows_def by blast
  show "\<exists>evs. trace (snd (bind_script m k s)) = trace s @ evs"
  proof (cases "fst (m s)")
    case (Inl e)
    with 1 show ?thesis
      by (auto simp: bind_script_def split: prod.splits)
  next
    case (Inr x)
    from k [of x] obtain evs2 where "trace (snd (k x (snd (m s)))) = trace (snd (m s)) @ evs2"
      unfolding grows_def by blast
    with 1 Inr show ?thesis
      by (auto simp: bind_script_def split: prod.splits)
  qed
qed

lemma grows_lib: "grows (lib env c)"
  by (simp add: grows_def lib_def split: option.splits)

lemma trace_body_and_exit:
  "\<exists>out. trace (snd (body_and_exit env body s)) =
     trace (snd (body s)) @ [(Installer_exit (raised (fst (body s))), out)]"
  by (cases "body s") (auto simp: lib_def raised_def split: sum.splits option.splits)

lemma grows_body_and_exit:
  assumes "grows body"
  shows "grows (body_and_exit env body)"
  unfolding grows_def
proof
  fix s :: script_state
  from assms obtain evs where "trace (snd (body s)) = trace s @ evs"
    unfolding grows_def by blast
  with trace_body_and_exit [of env body s]
  show "\<exists>evs. trace (snd (body_and_exit env body s)) = trace s @ evs"
    by auto
qed

lemma grows_with_Installer:
  assumes "grows body"
  shows "grows (with_Installer env ctor body)"
  unfolding with_Installer_def
  by (intro grows_bind grows_lib grows_body_and_exit assms)

lemmas grows_intros = grows_with_Installer grows_bind grows_fails_fast

subsection \<open>Statements that make a given call\<close>

lemma hitsI:
  assumes "\<And>s. arguments s = a \<Longrightarrow>
     \<exists>evs1 out evs2. trace (snd (m s)) = trace s @ evs1 @ (c, out) # evs2 \<and>
       collect f evs1 = cs"
  shows "hits a f m cs c"
  using assms unfolding hits_def by blast

lemma hitsE:
  assumes "hits a f m cs c" and "arguments s = a"
  obtains evs1 out evs2 where "trace (snd (m s)) = trace s @ evs1 @ (c, out) # evs2"
    and "collect f evs1 = cs"
  using assms unfolding hits_def by blast

lemma hits_lib:
  assumes "c' = c"
  shows "hits a f (lib env c') [] c"
proof (rule hitsI)
  fix s :: script_state
  have "trace (snd (lib env c s)) = trace s @ [] @ (c, raises env (trace s) c) # []"
    by (simp add: lib_def split: option.splits)
  then show "\<exists>evs1 out evs2. trace (snd (lib env c' s)) = trace s @ evs1 @ (c, out) # evs2 \<and>
       collect f evs1 = []"
    unfolding assms by (metis collect_simps(1))
qed

text \<open>The call is made in the first statement: what follows only adds calls.\<close>

lemma hits_bind_now:
  assumes m: "hits a f m cs c" and k: "\<And>x. grows (k x)"
  shows "hits a f (bind_script m k) cs c"
proof (rule hitsI)
  fix s :: script_state
  assume "arguments s = a"
  with m obtain evs1 out evs2 where 1: "trace (snd (m s)) = trace s @ evs1 @ (c, out) # evs2"
      "collect f evs1 = cs"
    by (rule hitsE)
  show "\<exists>evs1 out evs2. trace (snd (bind_script m k s)) = trace s @ evs1 @ (c, out) # evs2 \<and>
       collect f evs1 = cs"
  proof (cases "fst (m s)")
    case (Inl e)
    then have "snd (bind_script m k s) = snd (m s)"
      by (auto simp: bind_script_def split: prod.splits)
    with 1 show ?thesis by metis
  next
    case (Inr x)
    from k [of x] obtain evs3 where "trace (snd (k x (snd (m s)))) = trace (snd (m s)) @ evs3"
      unfolding grows_def by blast
    with 1(1) Inr have "trace (snd (bind_script m k s)) = trace s @ evs1 @ (c, out) # (evs2 @ evs3)"
      by (auto simp: bind_script_def split: prod.splits)
    with 1(2) show ?thesis by blast
  qed
qed

text \<open>The first statement returns: the call is made in what follows.\<close>

lemma hits_bind_later:
  assumes m: "runs a f m x cs" and k: "hits a f (k x) ds c"
  shows "hits a f (bind_script m k) (cs @ ds) c"
proof (rule hitsI)
  fix s :: script_state
  assume "arguments s = a"
  with m obtain s1 evs where 1: "m s = (Inr x, s1)" "arguments s1 = a"
      "trace s1 = trace s @ evs" "collect f evs = cs"
    by (rule runsE)
  from k 1(2) obtain evs1 out evs2 where 2: "trace (snd (k x s1)) = trace s1 @ evs1 @ (c, out) # evs2"
      "collect f evs1 = ds"
    by (rule hitsE)
  from 1 2 have "trace (snd (bind_script m k s)) = trace s @ (evs @ evs1) @ (c, out) # evs2"
      and "collect f (evs @ evs1) = cs @ ds"
    by (simp_all add: bind_script_def)
  then show "\<exists>evs1 out evs2. trace (snd (bind_script m k s)) = trace s @ evs1 @ (c, out) # evs2 \<and>
       collect f evs1 = cs @ ds"
    by blast
qed

lemma hits_seq_now:
  "hits a f p cs c \<Longrightarrow> grows (seq ps) \<Longrightarrow> hits a f (seq (p # ps)) cs c"
  by (simp add: hits_bind_now)

lemma hits_seq_later:
  "runs a f p () cs \<Longrightarrow> hits a f (seq ps) ds c \<Longrightarrow> hits a f (seq (p # ps)) (cs @ ds) c"
  by (simp add: hits_bind_later)

lemma hits_when_s: "b \<Longrightarrow> hits a f p cs c \<Longrightarrow> hits a f (when_s b p) cs c"
  by (simp add: when_s_def)

text \<open>The call is the construction of the \<^verbatim>\<open>Installer\<close>, or is made in the body.\<close>

lemma hits_with_Installer_init:
  assumes "ctor = c" and "grows body"
  shows "hits a f (with_Installer env ctor body) [] c"
  unfolding with_Installer_def
  by (intro hits_bind_now hits_lib grows_bind grows_lib grows_body_and_exit assms)

lemma hits_body_and_exit:
  assumes "hits a f body cs c"
  shows "hits a f (body_and_exit env body) cs c"
proof (rule hitsI)
  fix s :: script_state
  assume "arguments s = a"
  with assms obtain evs1 out evs2 where "trace (snd (body s)) = trace s @ evs1 @ (c, out) # evs2"
      "collect f evs1 = cs"
    by (rule hitsE)
  moreover obtain out' where "trace (snd (body_and_exit env body s)) =
     trace (snd (body s)) @ [(Installer_exit (raised (fst (body s))), out')]"
    using trace_body_and_exit [of env body s] by blast
  ultimately have "trace (snd (body_and_exit env body s)) =
      trace s @ evs1 @ (c, out) # (evs2 @ [(Installer_exit (raised (fst (body s))), out')])"
      and "collect f evs1 = cs"
    by simp_all
  then show "\<exists>evs1 out evs2.
      trace (snd (body_and_exit env body s)) = trace s @ evs1 @ (c, out) # evs2 \<and>
      collect f evs1 = cs"
    by blast
qed

lemma hits_with_Installer_body:
  assumes "\<forall>h. raises env h ctor = None" and "\<forall>h. raises env h Installer_enter = None"
    and "hits a f body cs c"
  shows "hits a f (with_Installer env ctor body) (f ctor @ f Installer_enter @ cs) c"
proof -
  have "hits a f (with_Installer env ctor body) (f ctor @ f Installer_enter @ cs) c"
    unfolding with_Installer_def
    by (rule hits_bind_later [OF runs_lib [OF assms(1)]],
        rule hits_bind_later [OF runs_lib [OF assms(2)]],
        rule hits_body_and_exit [OF assms(3)])
  then show ?thesis .
qed

lemma hits_conseq: "hits a f m cs c \<Longrightarrow> cs = ds \<Longrightarrow> hits a f m ds c"
  by simp

lemmas hits_intros =
  hits_lib hits_when_s hits_with_Installer_init hits_with_Installer_body
  hits_seq_now hits_seq_later hits_bind_now hits_bind_later

text \<open>
  With what the run makes of calls in any case: when \<open>f\<close> keeps \<open>cs\<close> of the calls made
  before \<open>c\<close>, and a prefix of \<open>cs @ f c\<close> of all the calls, it keeps \<open>cs @ f c\<close> of
  all the calls.
\<close>

lemma bounded_hits:
  assumes b: "bounded (arguments s) f m ds" and h: "hits (arguments s) f m cs c"
  shows "\<exists>evs. trace (snd (m s)) = trace s @ evs \<and> prefix (collect f evs) ds \<and>
     prefix (cs @ f c) (collect f evs)"
proof -
  from b obtain evs where evs: "trace (snd (m s)) = trace s @ evs" "prefix (collect f evs) ds"
    unfolding bounded_def by blast
  from h obtain evs1 out evs2 where "trace (snd (m s)) = trace s @ evs1 @ (c, out) # evs2"
      "collect f evs1 = cs"
    by (rule hitsE) simp
  with evs(1) have "collect f evs = (cs @ f c) @ collect f evs2"
    by auto
  with evs show ?thesis
    by (metis prefixI)
qed

section \<open>The calls of the installation phase, kind by kind\<close>

subsection \<open>What a run makes of calls at most\<close>

lemma concat_map_single [simp]: "concat (map (\<lambda>v. [g v]) xs) = map g xs"
  by (induction xs) simp_all

lemma bounded_debug:
  assumes "f Disk_layouts = []" and "\<And>msg. f (Debug msg) = []"
  shows "bounded a f
     (bind_script (disk_disk_layouts env) (\<lambda>layouts. lib env (Debug (g layouts)))) []"
proof -
  have "bounded a f
     (bind_script (disk_disk_layouts env) (\<lambda>layouts. lib env (Debug (g layouts))))
     (f Disk_layouts @ f (Debug (g (disk_layouts env))))"
    by (rule bounded_bind [OF yields_queries(7) bounded_yields [OF yields_lib]])
  with assms show ?thesis by simp
qed




lemma installer_kernels_closing:
  "installer_kernels (Installer_exit e) = []"
  "installer_kernels Disk_layouts = []"
  "installer_kernels (Debug msg) = []"
  by (simp_all add: installer_kernels_def)



lemma command_lists_closing:
  "command_lists (Installer_exit e) = []"
  by (simp_all add: command_lists_def)

lemma bounded_installer_kernels:
  "bounded a installer_kernels (perform_installation env mountpoint)
    [case kernels a of None \<Rightarrow> Some [''linux-hardened''] | Some ks \<Rightarrow> ks]"
  unfolding perform_installation_def
  by (rule bounded_conseq,
      (rule bounded_with_Installer [OF installer_kernels_closing(1)
            bounded_debug [OF installer_kernels_closing(2,3)]]
          bounded_bind yields_intros)+,
      simp only: installer_kernels_def splice_simps,
      (simp split: option.splits list.splits)?)



lemma yields_command_lists:
  assumes nosup: "\<forall>e. \<not> exit_suppresses env e"
  shows "yields a command_lists (perform_installation env mountpoint) () a
    ([install_paru,
      [''mariadb-install-db --user=mysql --basedir=/usr --datadir=/var/lib/mysql'']] @
     map (\<lambda>user. [''usermod -a -G docker '' @ username user])
       (case users a of Some (Some us) \<Rightarrow> us | _ \<Rightarrow> []) @
     [[''sudo -u postgres initdb -D /var/lib/postgres/data'']] @
     (case custom_commands a of Some (Some (c # cs)) \<Rightarrow> [c # cs] | _ \<Rightarrow> []))"
  unfolding perform_installation_def
  by (rule yields_conseq,
      (rule yields_intros yields_with_Installer [where f = command_lists, OF nosup command_lists_closing])+, rule refl,
      simp only: command_lists_def splice_simps, (auto split: option.splits list.splits)?)

subsection \<open>What a run makes of calls at least\<close>

text \<open>What \<^verbatim>\<open>get(key, default)\<close> gives is a value unless the key holds \<^verbatim>\<open>None\<close>.\<close>

lemma get_default_value:
  assumes "v \<noteq> Some None"
  shows "\<exists>x. (case v of None \<Rightarrow> Some d | Some w \<Rightarrow> w) = Some x"
  using assms by (cases v) auto


lemma hits_Installer_init:
  assumes H: "\<forall>h. raises env h (Info ''Starting installation'') = None"
    and dc: "disk_config a = Some dcv" and lc: "locale_config a = Some lcv"
    and rp: "(case additional_repositories a of None \<Rightarrow> Some [] | Some v \<Rightarrow> v) = Some repos"
  shows "hits a installer_kernels (perform_installation env mountpoint) []
     (Installer_init mountpoint dcv (case disk_encryption a of None \<Rightarrow> None | Some v \<Rightarrow> v)
        (case kernels a of None \<Rightarrow> Some [''linux-hardened''] | Some v \<Rightarrow> v))"
  unfolding perform_installation_def
  by (rule hits_conseq,
      (rule hits_intros runs_arguments_item [where field = disk_config, OF dc]
          runs_arguments_item [where field = locale_config, OF lc]
          runs_is_in [OF rp] runs_intros grows_intros fails_fast_intros refl
        | (simp add: H; fail))+,
      (simp only: installer_kernels_def splice_simps)?)







lemma at_most_exactly:
  assumes b: "bounded (arguments s) f m ds"
    and h: "P \<Longrightarrow> \<exists>cs c. hits (arguments s) f m cs c \<and> cs @ f c = ds"
  shows "\<exists>evs. trace (snd (m s)) = trace s @ evs \<and> prefix (collect f evs) ds \<and>
     (P \<longrightarrow> collect f evs = ds)"
proof -
  from boundedD [OF b] obtain evs where evs: "trace (snd (m s)) = trace s @ evs"
      "prefix (collect f evs) ds"
    by blast
  have "collect f evs = ds" if P
  proof -
    from h [OF that] obtain cs c where hit: "hits (arguments s) f m cs c" and "cs @ f c = ds"
      by blast
    with bounded_hits [OF b hit] obtain evs'
      where "trace (snd (m s)) = trace s @ evs'" "prefix ds (collect f evs')"
      by auto
    with evs show ?thesis
      by (simp add: prefix_order.antisym)
  qed
  with evs show ?thesis by blast
qed

subsection \<open>Runs to try the claims on\<close>

lemma quiet_never_suppresses: "\<forall>e. \<not> exit_suppresses quiet_library e"
  by (simp add: quiet_library_def)

lemma perform_installation_quiet:
  "fst (perform_installation quiet_library ''/mnt'' sample_state) = Inr ()"
  by (simp add: script_defs sample_defs)

lemma perform_installation_quiet_other:
  "fst (perform_installation quiet_library ''/mnt'' other_state) = Inr ()"
  by (simp add: script_defs sample_defs)


lemma perform_installation_interrupted:
  "fst (perform_installation interrupted_library ''/mnt'' sample_state) = Inl KeyboardInterrupt"
  "fst (perform_installation interrupted_library ''/mnt'' htop_state) = Inl KeyboardInterrupt"
  by (simp_all add: script_defs sample_defs)



section \<open>The claims about the arguments of the calls\<close>



text \<open>
  C3, as stated: any two configurations get the same command lists through
  \<^verbatim>\<open>run_custom_user_commands\<close>. The two runs below differ in the name of the user
  only, and their command lists differ.
\<close>

theorem perform_installation_commands_counterexample:
  "collect command_lists (trace (snd (perform_installation quiet_library ''/mnt'' sample_state))) \<noteq>
   collect command_lists (trace (snd (perform_installation quiet_library ''/mnt'' other_state)))"
proof -
  have a: "collect command_lists (trace (snd (perform_installation quiet_library ''/mnt'' sample_state))) =
      [install_paru,
       [''mariadb-install-db --user=mysql --basedir=/usr --datadir=/var/lib/mysql''],
       [''usermod -a -G docker alice''],
       [''sudo -u postgres initdb -D /var/lib/postgres/data'']]"
    using yields_collect [OF yields_command_lists [OF quiet_never_suppresses]
        perform_installation_quiet]
    by (simp add: sample_defs)
  have b: "collect command_lists (trace (snd (perform_installation quiet_library ''/mnt'' other_state))) =
      [install_paru,
       [''mariadb-install-db --user=mysql --basedir=/usr --datadir=/var/lib/mysql''],
       [''usermod -a -G docker bob''],
       [''sudo -u postgres initdb -D /var/lib/postgres/data'']]"
    using yields_collect [OF yields_command_lists [OF quiet_never_suppresses]
        perform_installation_quiet_other]
    by (simp add: sample_defs)
  show ?thesis
    unfolding a b by simp
qed

text \<open>
  C3, amended: in every run of \<^verbatim>\<open>perform_installation\<close> that returns, the command
  lists handed to \<^verbatim>\<open>run_custom_user_commands\<close> are the literal \<^verbatim>\<open>install_paru\<close>, the
  literal \<^verbatim>\<open>mariadb-install-db\<close> command, one \<^verbatim>\<open>usermod -a -G docker\<close> command for
  each configured user, made of the user's name, the literal \<^verbatim>\<open>initdb\<close> command and,
  when given, the user's \<^verbatim>\<open>custom-commands\<close>. So two configurations with the same user
  names and the same custom commands get the same command lists.
\<close>

theorem perform_installation_commands:
  assumes "fst (perform_installation env mountpoint s) = Inr ()"
    and "\<forall>e. \<not> exit_suppresses env e"
  shows "collect command_lists (trace (snd (perform_installation env mountpoint s))) =
     collect command_lists (trace s) @
     [install_paru,
      [''mariadb-install-db --user=mysql --basedir=/usr --datadir=/var/lib/mysql'']] @
     map (\<lambda>user. [''usermod -a -G docker '' @ username user])
       (case users (arguments s) of Some (Some us) \<Rightarrow> us | _ \<Rightarrow> []) @
     [[''sudo -u postgres initdb -D /var/lib/postgres/data'']] @
     (case custom_commands (arguments s) of Some (Some (c # cs)) \<Rightarrow> [c # cs] | _ \<Rightarrow> [])"
  by (rule yields_collect [OF yields_command_lists [OF assms(2)] assms(1)])

text \<open>The amended C3 on the sample configuration, whose only user is alice.\<close>

theorem perform_installation_commands_witness:
  "collect command_lists (trace (snd (perform_installation quiet_library ''/mnt'' sample_state))) =
     [[''git clone https://aur.archlinux.org/paru.git'', ''cd paru'',
       ''makepkg -si --noconfirm''],
      [''mariadb-install-db --user=mysql --basedir=/usr --datadir=/var/lib/mysql''],
      [''usermod -a -G docker alice''],
      [''sudo -u postgres initdb -D /var/lib/postgres/data'']]"
  using perform_installation_commands [OF perform_installation_quiet quiet_never_suppresses]
  by (simp add: sample_defs install_paru_def)





text \<open>
  C10: when the configuration has no \<^verbatim>\<open>kernels\<close>, for every library, in every run of
  \<^verbatim>\<open>perform_installation\<close>, however it ends, the \<^verbatim>\<open>Installer\<close> is constructed at
  most once, and with the one kernel \<^verbatim>\<open>linux-hardened\<close>. And the run does construct it,
  whatever happens after that, unless it ends before: it constructs it when the
  \<^verbatim>\<open>info\<close> call of line 77 does not raise and the configuration has what lines 78 to
  84 read (\<^verbatim>\<open>disk_config\<close> and \<^verbatim>\<open>locale_config\<close> are there,
  \<^verbatim>\<open>additional-repositories\<close> does not hold \<^verbatim>\<open>None\<close>).
\<close>

theorem perform_installation_default_kernel:
  assumes "kernels (arguments s) = None"
  shows "\<exists>evs. trace (snd (perform_installation env mountpoint s)) = trace s @ evs \<and>
     prefix (collect installer_kernels evs) [Some [''linux-hardened'']] \<and>
     ((\<forall>h. raises env h (Info ''Starting installation'') = None) \<and>
      disk_config (arguments s) \<noteq> None \<and> locale_config (arguments s) \<noteq> None \<and>
      additional_repositories (arguments s) \<noteq> Some None \<longrightarrow>
      collect installer_kernels evs = [Some [''linux-hardened'']])"
proof -
  let ?P = "(\<forall>h. raises env h (Info ''Starting installation'') = None) \<and>
      disk_config (arguments s) \<noteq> None \<and> locale_config (arguments s) \<noteq> None \<and>
      additional_repositories (arguments s) \<noteq> Some None"
  have b: "bounded (arguments s) installer_kernels (perform_installation env mountpoint)
      [Some [''linux-hardened'']]"
    using bounded_installer_kernels [of "arguments s" env mountpoint] assms by simp
  have "\<exists>cs c. hits (arguments s) installer_kernels (perform_installation env mountpoint) cs c \<and>
      cs @ installer_kernels c = [Some [''linux-hardened'']]" if ?P
  proof -
    from that obtain dcv lcv repos
      where "disk_config (arguments s) = Some dcv"
        and "locale_config (arguments s) = Some lcv"
        and "(case additional_repositories (arguments s) of None \<Rightarrow> Some [] | Some v \<Rightarrow> v)
          = Some repos"
      using get_default_value [of "additional_repositories (arguments s)" "[]"]
      by auto
    with that have "hits (arguments s) installer_kernels (perform_installation env mountpoint) []
       (Installer_init mountpoint dcv
          (case disk_encryption (arguments s) of None \<Rightarrow> None | Some v \<Rightarrow> v)
          (case kernels (arguments s) of None \<Rightarrow> Some [''linux-hardened''] | Some v \<Rightarrow> v))"
      by (intro hits_Installer_init) auto
    moreover have "installer_kernels (Installer_init mountpoint dcv
          (case disk_encryption (arguments s) of None \<Rightarrow> None | Some v \<Rightarrow> v)
          (case kernels (arguments s) of None \<Rightarrow> Some [''linux-hardened''] | Some v \<Rightarrow> v)) =
        [Some [''linux-hardened'']]"
      using assms by (simp add: installer_kernels_def)
    ultimately show ?thesis
      by (metis append_Nil)
  qed
  from at_most_exactly [of s installer_kernels, OF b this]
  show ?thesis .
qed

text \<open>
  C10 on the sample configuration, which has no \<^verbatim>\<open>kernels\<close>, in a run that ends with
  the \<^verbatim>\<open>KeyboardInterrupt\<close> of the final shell.
\<close>

theorem perform_installation_default_kernel_witness:
  "kernels (arguments sample_state) = None \<and>
   fst (perform_installation interrupted_library ''/mnt'' sample_state) = Inl KeyboardInterrupt \<and>
   collect installer_kernels
     (trace (snd (perform_installation interrupted_library ''/mnt'' sample_state))) =
     [Some [''linux-hardened'']]"
  using perform_installation_default_kernel [of sample_state interrupted_library "''/mnt''"]
    perform_installation_interrupted(1)
  by (simp add: sample_config_def sample_state_def interrupted_library_def quiet_library_def)

section \<open>The final shell\<close>

subsection \<open>Statements of which the end is known\<close>













section \<open>The claim about the final shell\<close>




end
